theory Spec2Isabelle
  imports Main "HOL-Library.Word"
begin

unbundle bit_operations_syntax

section \<open>The data model of the collector (src/core/gc.c)\<close>

text \<open>
  Pointers are natural numbers, \<open>0\<close> is \<open>NULL\<close>. The store maps the address of a block's
  \<open>DstGCMemoryHeader\<close> to the block (header fields followed by the object body).
\<close>

type_synonym addr = nat

text \<open>
  Modelled from the spec: the value discriminant \<open>DstType\<close> is declared in dst/dst.h, which is
  not under src/. The spec names nil, boolean and number next to the heap kinds; gc.c names the
  heap kinds and \<open>DST_BOOLEAN\<close>.
\<close>

datatype DstType =
    DST_NIL | DST_REAL | DST_INTEGER | DST_BOOLEAN
  | DST_STRING | DST_SYMBOL | DST_ARRAY | DST_TUPLE | DST_TABLE | DST_STRUCT
  | DST_FIBER | DST_BUFFER | DST_FUNCTION | DST_CFUNCTION | DST_USERDATA

text \<open>
  A \<open>DstValue\<close> is the discriminant \<open>x.type\<close> and the union \<open>x.as\<close>; every member of the
  union that gc.c reads (\<open>as.string\<close>, \<open>as.array\<close>, \<open>as.pointer\<close>, ...) is a pointer sharing the
  same storage.
\<close>

record DstValue =
  vtype :: DstType
  as_pointer :: addr

text \<open>
  Modelled from the spec: the block type tags (\<open>DstMemoryType\<close>) and the flag masks live in
  dst/dst.h. The type tag occupies the low byte of \<open>flags\<close>, above it are the reachable bit
  and the disabled (pinned) bit.
\<close>

datatype DstMemoryType =
    DST_MEMORY_NONE | DST_MEMORY_STRING | DST_MEMORY_SYMBOL | DST_MEMORY_ARRAY
  | DST_MEMORY_TUPLE | DST_MEMORY_TABLE | DST_MEMORY_STRUCT | DST_MEMORY_FIBER
  | DST_MEMORY_BUFFER | DST_MEMORY_FUNCTION | DST_MEMORY_USERDATA
  | DST_MEMORY_FUNCENV | DST_MEMORY_FUNCDEF

fun mem_tag :: "DstMemoryType \<Rightarrow> 32 word" where
  "mem_tag DST_MEMORY_NONE = 0"
| "mem_tag DST_MEMORY_STRING = 1"
| "mem_tag DST_MEMORY_SYMBOL = 2"
| "mem_tag DST_MEMORY_ARRAY = 3"
| "mem_tag DST_MEMORY_TUPLE = 4"
| "mem_tag DST_MEMORY_TABLE = 5"
| "mem_tag DST_MEMORY_STRUCT = 6"
| "mem_tag DST_MEMORY_FIBER = 7"
| "mem_tag DST_MEMORY_BUFFER = 8"
| "mem_tag DST_MEMORY_FUNCTION = 9"
| "mem_tag DST_MEMORY_USERDATA = 10"
| "mem_tag DST_MEMORY_FUNCENV = 11"
| "mem_tag DST_MEMORY_FUNCDEF = 12"

definition DST_MEM_TYPEBITS :: "32 word" where
  "DST_MEM_TYPEBITS = 0xFF"

definition DST_MEM_REACHABLE :: "32 word" where
  "DST_MEM_REACHABLE = 0x100"

definition DST_MEM_DISABLED :: "32 word" where
  "DST_MEM_DISABLED = 0x200"

text \<open>
  Modelled from the spec: the sizes behind the fixed negative offsets between a body pointer
  and its header (\<open>sizeof(DstGCMemoryHeader)\<close>, the two \<open>uint32_t\<close> in front of a string, tuple
  or struct, \<open>sizeof(DstUserdataHeader)\<close>), for an LP64 target.
\<close>

definition sizeof_DstGCMemoryHeader :: nat where
  "sizeof_DstGCMemoryHeader = 16"

definition sizeof_uint32_t :: nat where
  "sizeof_uint32_t = 4"

definition sizeof_DstUserdataHeader :: nat where
  "sizeof_DstUserdataHeader = 16"

text \<open>
  Modelled from the spec: \<open>DST_FRAME_SIZE\<close>, the number of value slots a \<open>DstStackFrame\<close>
  occupies below the base of its frame.
\<close>

definition DST_FRAME_SIZE :: nat where
  "DST_FRAME_SIZE = 2"

subsection \<open>Object bodies\<close>

text \<open>
  A pointer field to an externally allocated buffer is modelled by two fields: the pointer
  itself (tested against \<open>NULL\<close>, handed to \<open>free\<close>) and, under the name \<open>..._mem\<close>, the
  elements stored behind it. Reading past the end of \<open>..._mem\<close> is a fault.
  Only the fields that gc.c reads are kept.
\<close>

record DstArray =
  array_data :: addr
  array_data_mem :: "DstValue list"
  array_count :: nat

record DstTable =
  table_data :: addr
  table_data_mem :: "DstValue list"
  table_capacity :: nat

text \<open>Tuples and structs are stored inline; their length and capacity sit in front of them.\<close>

record DstTuple =
  tuple_length :: nat
  tuple_mem :: "DstValue list"

record DstStruct =
  struct_capacity :: nat
  struct_mem :: "DstValue list"

record DstBuffer =
  buffer_data :: addr

record DstStackFrame =
  func :: addr
  prevframe :: nat

text \<open>
  The stack of a fiber is one array of slots; a \<open>DstStackFrame\<close> is stored in the
  \<open>DST_FRAME_SIZE\<close> slots below the base of its frame (\<open>SlotFrame\<close> is the first of them).
\<close>

datatype slot = SlotValue DstValue | SlotFrame DstStackFrame | SlotPad

record DstFiber =
  fiber_data :: addr
  fiber_data_mem :: "slot list"
  frame :: nat
  frametop :: nat
  parent :: addr
  ret :: DstValue

record DstFuncDef =
  environments :: addr
  environments_length :: nat
  constants :: addr
  constants_mem :: "DstValue list"
  constants_length :: nat
  bytecode :: addr

text \<open>\<open>as_union\<close> is the union \<open>env->as\<close>: \<open>as.fiber\<close> and \<open>as.values\<close> share it.\<close>

record DstFuncEnv =
  offset :: nat
  env_length :: nat
  as_union :: addr
  as_values_mem :: "DstValue list"

record DstFunction =
  fn_def :: addr
  envs :: addr
  envs_mem :: "addr list"

text \<open>\<open>ud_finalize\<close> is the function pointer \<open>h->type->finalize\<close>.\<close>

record DstUserdataHeader =
  ud_finalize :: addr
  ud_size :: nat

datatype body =
    Uninit
  | BString
  | BArray DstArray
  | BTuple DstTuple
  | BTable DstTable
  | BStruct DstStruct
  | BFiber DstFiber
  | BBuffer DstBuffer
  | BFunction DstFunction
  | BUserdata DstUserdataHeader
  | BFuncEnv DstFuncEnv
  | BFuncDef DstFuncDef

text \<open>A block: the two fields of \<open>DstGCMemoryHeader\<close>, then the body.\<close>

record block =
  nxt :: addr
  flags :: "32 word"
  body :: body

type_synonym heap = "addr \<rightharpoonup> block"

text \<open>The GC state: the store and the globals of gc.c (and the two it reads from the VM).\<close>

record vm =
  blocks :: heap
  dst_vm_blocks :: addr
  dst_vm_memory_interval :: "32 word"
  dst_vm_next_collection :: "32 word"
  dst_vm_fiber :: addr
  dst_vm_cache :: addr

text \<open>Dereferencing a header pointer: \<open>NULL\<close> and unallocated addresses hold no block.\<close>

definition block_at :: "heap \<Rightarrow> addr \<Rightarrow> block option" where
  "block_at h a = (if a = 0 then None else h a)"

section \<open>dst_alloc\<close>

datatype error = OutOfMemory | Uninitialized | HeaderOutOfBounds

text \<open>
  \<open>malloc\<close> is the underlying allocator, a parameter: it receives the total size and returns
  a pointer or \<open>NULL\<close>. Modelled from the spec: \<open>DST_PLEASE_INIT\<close> and \<open>DST_OUT_OF_MEMORY\<close>
  (macros of dst/dst.h) are fatal; the state at the exit is returned beside the error.
  \<open>size_t\<close> is 64 bits wide, the counter 32 bits. When \<open>size + sizeof(DstGCMemoryHeader)\<close>
  wraps around, \<open>malloc\<close> is asked for fewer bytes than the header takes and the stores to
  \<open>mdata->flags\<close> and \<open>mdata->next\<close> run past the allocation: undefined behaviour, the error
  \<open>HeaderOutOfBounds\<close>. The body is left uninitialised.
\<close>

definition dst_alloc ::
  "(nat \<Rightarrow> addr) \<Rightarrow> DstMemoryType \<Rightarrow> nat \<Rightarrow> vm \<Rightarrow> vm \<times> (error + addr)" where
  "dst_alloc malloc type sz st =
     (let total = (sz + sizeof_DstGCMemoryHeader) mod 2 ^ 64 in
      if dst_vm_cache st = 0 then (st, Inl Uninitialized)
      else
        let mem = malloc total in
        if mem = 0 then (st, Inl OutOfMemory)
        else if total < sizeof_DstGCMemoryHeader then (st, Inl HeaderOutOfBounds)
        else
          let mdata = \<lparr>nxt = dst_vm_blocks st, flags = mem_tag type, body = Uninit\<rparr> in
          (st\<lparr>blocks := (blocks st)(mem \<mapsto> mdata),
              dst_vm_next_collection := dst_vm_next_collection st + of_nat sz,
              dst_vm_blocks := mem\<rparr>,
           Inr (mem + sizeof_DstGCMemoryHeader)))"

text \<open>
  The global list, as the list of header addresses met from \<open>a\<close> along \<open>next\<close> up to \<open>NULL\<close>.
\<close>

fun list_path :: "heap \<Rightarrow> addr \<Rightarrow> addr list \<Rightarrow> bool" where
  "list_path h a [] = (a = 0)"
| "list_path h a (x # xs) =
     (a = x \<and> (case block_at h a of None \<Rightarrow> False | Some b \<Rightarrow> list_path h (nxt b) xs))"

section \<open>Results, effects\<close>

text \<open>
  A run of the collector either returns (\<open>Done\<close>), reads memory that holds no block or no
  object of the expected layout (\<open>Fault\<close>: undefined behaviour in C), or exhausts the fuel that
  bounds the nesting of calls and the number of loop iterations (\<open>OutOfFuel\<close>).
\<close>

datatype 'a result = OutOfFuel | Fault | Done 'a

text \<open>
  The calls the collector makes to its collaborators, in order: the entry of
  \<open>dst_deinit_block\<close> on a block, \<open>dst_cache_remove\<close>, \<open>free\<close>, a userdata finalizer
  (function pointer, payload pointer, size), and the store to \<open>current->flags\<close> at the end of
  the loop body of \<open>dst_sweep\<close>.
\<close>

datatype event =
    EvDeinit addr
  | EvCacheRemove DstValue
  | EvFree addr
  | EvFinalize addr addr nat
  | EvStoreFlags addr

definition dst_wrap_string :: "addr \<Rightarrow> DstValue" where
  "dst_wrap_string p = \<lparr>vtype = DST_STRING, as_pointer = p\<rparr>"

definition dst_wrap_tuple :: "addr \<Rightarrow> DstValue" where
  "dst_wrap_tuple p = \<lparr>vtype = DST_TUPLE, as_pointer = p\<rparr>"

definition dst_wrap_struct :: "addr \<Rightarrow> DstValue" where
  "dst_wrap_struct p = \<lparr>vtype = DST_STRUCT, as_pointer = p\<rparr>"

section \<open>dst_deinit_block\<close>

text \<open>
  \<open>block\<close> is the address of the header, \<open>b\<close> the block stored there. The switch is on
  \<open>block->flags & DST_MEM_TYPEBITS\<close>; each case casts the body to the layout of its kind,
  which faults when the body has another layout.
\<close>

definition dst_deinit_block :: "addr \<Rightarrow> block \<Rightarrow> event list result" where
  "dst_deinit_block block b =
     (let mem = block + sizeof_DstGCMemoryHeader;
          smem = mem + 2 * sizeof_uint32_t;
          t = flags b AND DST_MEM_TYPEBITS
      in
      if t = mem_tag DST_MEMORY_STRING then
        Done [EvDeinit block, EvCacheRemove (dst_wrap_string smem)]
      else if t = mem_tag DST_MEMORY_ARRAY then
        (case body b of BArray a \<Rightarrow> Done [EvDeinit block, EvFree (array_data a)] | _ \<Rightarrow> Fault)
      else if t = mem_tag DST_MEMORY_TUPLE then
        Done [EvDeinit block, EvCacheRemove (dst_wrap_tuple smem)]
      else if t = mem_tag DST_MEMORY_TABLE then
        (case body b of BTable a \<Rightarrow> Done [EvDeinit block, EvFree (table_data a)] | _ \<Rightarrow> Fault)
      else if t = mem_tag DST_MEMORY_STRUCT then
        Done [EvDeinit block, EvCacheRemove (dst_wrap_struct smem)]
      else if t = mem_tag DST_MEMORY_FIBER then
        (case body b of BFiber f \<Rightarrow> Done [EvDeinit block, EvFree (fiber_data f)] | _ \<Rightarrow> Fault)
      else if t = mem_tag DST_MEMORY_BUFFER then
        (case body b of BBuffer f \<Rightarrow> Done [EvDeinit block, EvFree (buffer_data f)] | _ \<Rightarrow> Fault)
      else if t = mem_tag DST_MEMORY_FUNCTION then
        (case body b of BFunction f \<Rightarrow> Done [EvDeinit block, EvFree (envs f)] | _ \<Rightarrow> Fault)
      else if t = mem_tag DST_MEMORY_USERDATA then
        (case body b of
           BUserdata h \<Rightarrow>
             if ud_finalize h \<noteq> 0
             then Done [EvDeinit block,
                        EvFinalize (ud_finalize h) (mem + sizeof_DstUserdataHeader) (ud_size h)]
             else Done [EvDeinit block]
         | _ \<Rightarrow> Fault)
      else if t = mem_tag DST_MEMORY_FUNCENV then
        (case body b of
           BFuncEnv env \<Rightarrow>
             if 0 = offset env then Done [EvDeinit block, EvFree (as_union env)]
             else Done [EvDeinit block]
         | _ \<Rightarrow> Fault)
      else if t = mem_tag DST_MEMORY_FUNCDEF then
        (case body b of
           BFuncDef d \<Rightarrow>
             Done [EvDeinit block, EvFree (environments d), EvFree (constants d),
                   EvFree (bytecode d)]
         | _ \<Rightarrow> Fault)
      else Done [EvDeinit block])"

section \<open>dst_sweep\<close>

text \<open>
  A run of \<open>dst_sweep\<close> or \<open>dst_collect\<close> yields the events it made, in order, and its
  outcome; the events of a run that faults are those up to the fault.
\<close>

type_synonym outcome = "event list \<times> vm result"

text \<open>
  The \<open>if\<close>/\<open>else\<close> of the loop body, for the block \<open>cb\<close> at \<open>current\<close>: its events, and
  the value of \<open>previous\<close> and the state after it. A surviving block becomes \<open>previous\<close>. The
  other branch finalizes the block, unlinks it (through \<open>previous->next\<close> or the list head)
  and frees it: \<open>free(current)\<close> takes the block out of the store.
\<close>

definition sweep_branch ::
  "addr \<Rightarrow> addr \<Rightarrow> block \<Rightarrow> vm \<Rightarrow> event list \<times> (addr \<times> vm) result" where
  "sweep_branch previous current cb st =
     (let next = nxt cb in
      if flags cb AND (DST_MEM_REACHABLE OR DST_MEM_DISABLED) \<noteq> 0 then
        ([], Done (current, st))
      else
        (case dst_deinit_block current cb of
           Done evs \<Rightarrow>
             (case (if previous \<noteq> 0 then
                      (case block_at (blocks st) previous of
                         None \<Rightarrow> None
                       | Some pb \<Rightarrow>
                           Some (st\<lparr>blocks := (blocks st)(previous \<mapsto> pb\<lparr>nxt := next\<rparr>)\<rparr>))
                    else Some (st\<lparr>dst_vm_blocks := next\<rparr>)) of
                None \<Rightarrow> (evs, Fault)
              | Some st1 \<Rightarrow>
                  (evs @ [EvFree current],
                   Done (previous, st1\<lparr>blocks := (blocks st1)(current := None)\<rparr>)))
         | Fault \<Rightarrow> ([EvDeinit current], Fault)
         | OutOfFuel \<Rightarrow> ([EvDeinit current], OutOfFuel)))"

text \<open>
  \<open>current->flags &= ~DST_MEM_REACHABLE\<close> (line 297): a read and a write of the header at
  \<open>current\<close>; \<open>None\<close> when the store holds no block there.
\<close>

definition clear_reachable :: "vm \<Rightarrow> addr \<Rightarrow> vm option" where
  "clear_reachable st current =
     (case block_at (blocks st) current of
        None \<Rightarrow> None
      | Some b \<Rightarrow>
          Some (st\<lparr>blocks := (blocks st)
                  (current \<mapsto> b\<lparr>flags := flags b AND NOT DST_MEM_REACHABLE\<rparr>)\<rparr>))"

text \<open>
  The loop of \<open>dst_sweep\<close>, one unit of fuel per iteration: \<open>next = current->next\<close>, the
  \<open>if\<close>/\<open>else\<close>, then line 297 on whatever the store holds at \<open>current\<close> by then (recorded
  as \<open>EvStoreFlags current\<close>), then \<open>current = next\<close>. An access to a header that holds no
  block is a fault, here as everywhere.
\<close>

fun sweep_loop :: "nat \<Rightarrow> addr \<Rightarrow> addr \<Rightarrow> vm \<Rightarrow> outcome" where
  "sweep_loop 0 previous current st = ([], OutOfFuel)"
| "sweep_loop (Suc n) previous current st =
     (if current = 0 then ([], Done st)
      else
        case block_at (blocks st) current of
          None \<Rightarrow> ([], Fault)
        | Some cb \<Rightarrow>
            (case sweep_branch previous current cb st of
               (evs, Done (previous', st1)) \<Rightarrow>
                 (case clear_reachable st1 current of
                    None \<Rightarrow> (evs @ [EvStoreFlags current], Fault)
                  | Some st2 \<Rightarrow>
                      (case sweep_loop n previous' (nxt cb) st2 of
                         (tr, r) \<Rightarrow> (evs @ EvStoreFlags current # tr, r)))
             | (evs, Fault) \<Rightarrow> (evs, Fault)
             | (evs, OutOfFuel) \<Rightarrow> (evs, OutOfFuel)))"

definition dst_sweep :: "nat \<Rightarrow> vm \<Rightarrow> outcome" where
  "dst_sweep n st = sweep_loop n 0 (dst_vm_blocks st) st"

section \<open>The mark phase\<close>

text \<open>
  Modelled from the spec: the helpers of dst/dst.h that lead from a body pointer to its
  header, each a fixed negative offset. A pointer too small to have a header in front of it
  is sent to \<open>NULL\<close>, where no block lives.
\<close>

definition dst_gc_header :: "addr \<Rightarrow> addr" where
  "dst_gc_header m = m - sizeof_DstGCMemoryHeader"

definition dst_string_raw :: "addr \<Rightarrow> addr" where
  "dst_string_raw s = s - 2 * sizeof_uint32_t"

definition dst_tuple_raw :: "addr \<Rightarrow> addr" where
  "dst_tuple_raw t = t - 2 * sizeof_uint32_t"

definition dst_struct_raw :: "addr \<Rightarrow> addr" where
  "dst_struct_raw t = t - 2 * sizeof_uint32_t"

definition dst_userdata_header :: "addr \<Rightarrow> addr" where
  "dst_userdata_header u = u - sizeof_DstUserdataHeader"

text \<open>
  Modelled from the spec: the macros \<open>dst_gc_reachable\<close> (test of the reachable bit) and
  \<open>dst_gc_mark\<close> (setting it) on the header in front of \<open>m\<close>. \<open>None\<close>: there is no block.
\<close>

definition dst_gc_reachable :: "heap \<Rightarrow> addr \<Rightarrow> bool option" where
  "dst_gc_reachable h m =
     (case block_at h (dst_gc_header m) of
        None \<Rightarrow> None
      | Some b \<Rightarrow> Some (flags b AND DST_MEM_REACHABLE \<noteq> 0))"

definition dst_gc_mark :: "heap \<Rightarrow> addr \<Rightarrow> heap option" where
  "dst_gc_mark h m =
     (case block_at h (dst_gc_header m) of
        None \<Rightarrow> None
      | Some b \<Rightarrow> Some (h(dst_gc_header m \<mapsto> b\<lparr>flags := flags b OR DST_MEM_REACHABLE\<rparr>)))"

text \<open>Reading the body behind a pointer under the layout the code casts it to.\<close>

definition body_at :: "heap \<Rightarrow> addr \<Rightarrow> body option" where
  "body_at h m = map_option body (block_at h (dst_gc_header m))"

text \<open>
  Reading an object through a pointer of its type: \<open>None\<close> when no block lies in front of
  the pointer or its body has another layout.
\<close>

definition array_at :: "heap \<Rightarrow> addr \<Rightarrow> DstArray option" where
  "array_at h m = (case body_at h m of Some (BArray a) \<Rightarrow> Some a | _ \<Rightarrow> None)"

definition table_at :: "heap \<Rightarrow> addr \<Rightarrow> DstTable option" where
  "table_at h m = (case body_at h m of Some (BTable a) \<Rightarrow> Some a | _ \<Rightarrow> None)"

definition struct_at :: "heap \<Rightarrow> addr \<Rightarrow> DstStruct option" where
  "struct_at h m = (case body_at h m of Some (BStruct a) \<Rightarrow> Some a | _ \<Rightarrow> None)"

definition tuple_at :: "heap \<Rightarrow> addr \<Rightarrow> DstTuple option" where
  "tuple_at h m = (case body_at h m of Some (BTuple a) \<Rightarrow> Some a | _ \<Rightarrow> None)"

definition funcenv_at :: "heap \<Rightarrow> addr \<Rightarrow> DstFuncEnv option" where
  "funcenv_at h m = (case body_at h m of Some (BFuncEnv a) \<Rightarrow> Some a | _ \<Rightarrow> None)"

definition funcdef_at :: "heap \<Rightarrow> addr \<Rightarrow> DstFuncDef option" where
  "funcdef_at h m = (case body_at h m of Some (BFuncDef a) \<Rightarrow> Some a | _ \<Rightarrow> None)"

definition function_at :: "heap \<Rightarrow> addr \<Rightarrow> DstFunction option" where
  "function_at h m = (case body_at h m of Some (BFunction a) \<Rightarrow> Some a | _ \<Rightarrow> None)"

definition fiber_at :: "heap \<Rightarrow> addr \<Rightarrow> DstFiber option" where
  "fiber_at h m = (case body_at h m of Some (BFiber a) \<Rightarrow> Some a | _ \<Rightarrow> None)"

text \<open>Unsigned 32-bit subtraction (\<open>j - i\<close>, \<open>i - DST_FRAME_SIZE\<close> on \<open>uint32_t\<close>).\<close>

definition u32_sub :: "nat \<Rightarrow> nat \<Rightarrow> nat" where
  "u32_sub a b = (a + 2 ^ 32 - b mod 2 ^ 32) mod 2 ^ 32"

text \<open>
  \<open>(DstStackFrame *)(fiber->data + i - DST_FRAME_SIZE)\<close>: the frame stored in the slots
  below index \<open>i\<close>.
\<close>

definition read_frame :: "DstFiber \<Rightarrow> nat \<Rightarrow> DstStackFrame option" where
  "read_frame f i =
     (if i < DST_FRAME_SIZE \<or> length (fiber_data_mem f) \<le> i - DST_FRAME_SIZE then None
      else case fiber_data_mem f ! (i - DST_FRAME_SIZE) of
             SlotFrame fr \<Rightarrow> Some fr
           | _ \<Rightarrow> None)"

text \<open>The \<open>k\<close> values a loop reads from a run of stack slots; a slot that holds no value,
  or the end of the buffer, is a fault.\<close>

fun read_values :: "slot list \<Rightarrow> nat \<Rightarrow> DstValue list option" where
  "read_values ss 0 = Some []"
| "read_values [] (Suc k) = None"
| "read_values (SlotValue v # ss) (Suc k) = map_option (Cons v) (read_values ss k)"
| "read_values (_ # ss) (Suc k) = None"

definition dst_mark_string :: "addr \<Rightarrow> heap \<Rightarrow> heap result" where
  "dst_mark_string str h =
     (case dst_gc_mark h (dst_string_raw str) of None \<Rightarrow> Fault | Some h' \<Rightarrow> Done h')"

definition dst_mark_buffer :: "addr \<Rightarrow> heap \<Rightarrow> heap result" where
  "dst_mark_buffer buffer h =
     (case dst_gc_mark h buffer of None \<Rightarrow> Fault | Some h' \<Rightarrow> Done h')"

definition dst_mark_udata :: "addr \<Rightarrow> heap \<Rightarrow> heap result" where
  "dst_mark_udata udata h =
     (case dst_gc_mark h (dst_userdata_header udata) of None \<Rightarrow> Fault | Some h' \<Rightarrow> Done h')"

text \<open>
  The recursive mark routines call each other, so they are defined together, by recursion on
  fuel: every call and every loop iteration takes one unit, and a run that needs more returns
  \<open>OutOfFuel\<close>. A \<open>call\<close> names a routine with its arguments.
  \<open>Mark_many\<close>, \<open>Mark_constants\<close> (the \<open>for\<close> loop of \<open>dst_mark_funcdef\<close>) and \<open>Mark_envs\<close>
  (the \<open>for\<close> loop of \<open>dst_mark_function\<close>) carry the memory from the current position on and
  the number of elements still to visit; \<open>Mark_frames\<close> is the \<open>while\<close> loop of
  \<open>dst_mark_fiber\<close> with the fiber and its variables \<open>i\<close> and \<open>j\<close>. Marking writes flags
  only, so a buffer read before a recursive call holds the same elements after it.
\<close>

datatype call =
    Mark DstValue
  | Mark_many "DstValue list" nat
  | Mark_array addr
  | Mark_table addr
  | Mark_struct addr
  | Mark_tuple addr
  | Mark_funcenv addr
  | Mark_funcdef addr
  | Mark_constants "DstValue list" nat
  | Mark_function addr
  | Mark_envs "addr list" nat
  | Mark_fiber addr
  | Mark_frames DstFiber nat nat

primrec run :: "nat \<Rightarrow> call \<Rightarrow> heap \<Rightarrow> heap result" where
  "run 0 c h = OutOfFuel"
| "run (Suc n) c h =
     (case c of
        Mark x \<Rightarrow>
          (case vtype x of
             DST_STRING \<Rightarrow> dst_mark_string (as_pointer x) h
           | DST_SYMBOL \<Rightarrow> dst_mark_string (as_pointer x) h
           | DST_FUNCTION \<Rightarrow> run n (Mark_function (as_pointer x)) h
           | DST_ARRAY \<Rightarrow> run n (Mark_array (as_pointer x)) h
           | DST_TABLE \<Rightarrow> run n (Mark_table (as_pointer x)) h
           | DST_STRUCT \<Rightarrow> run n (Mark_struct (as_pointer x)) h
           | DST_TUPLE \<Rightarrow> run n (Mark_tuple (as_pointer x)) h
           | DST_BUFFER \<Rightarrow> dst_mark_buffer (as_pointer x) h
           | DST_FIBER \<Rightarrow> run n (Mark_fiber (as_pointer x)) h
           | DST_USERDATA \<Rightarrow> dst_mark_udata (as_pointer x) h
           | _ \<Rightarrow> Done h)
      | Mark_many values k \<Rightarrow>
          (case k of
             0 \<Rightarrow> Done h
           | Suc k' \<Rightarrow>
               (case values of
                  [] \<Rightarrow> Fault
                | v # values' \<Rightarrow>
                    (case run n (Mark v) h of
                       Done h' \<Rightarrow> run n (Mark_many values' k') h'
                     | Fault \<Rightarrow> Fault
                     | OutOfFuel \<Rightarrow> OutOfFuel)))
      | Mark_array array \<Rightarrow>
          (case dst_gc_reachable h array of
             None \<Rightarrow> Fault
           | Some True \<Rightarrow> Done h
           | Some False \<Rightarrow>
               (case dst_gc_mark h array of
                  None \<Rightarrow> Fault
                | Some h1 \<Rightarrow>
                    (case array_at h1 array of
                       None \<Rightarrow> Fault
                     | Some a \<Rightarrow> run n (Mark_many (array_data_mem a) (array_count a)) h1)))
      | Mark_table table \<Rightarrow>
          (case dst_gc_reachable h table of
             None \<Rightarrow> Fault
           | Some True \<Rightarrow> Done h
           | Some False \<Rightarrow>
               (case dst_gc_mark h table of
                  None \<Rightarrow> Fault
                | Some h1 \<Rightarrow>
                    (case table_at h1 table of
                       None \<Rightarrow> Fault
                     | Some t \<Rightarrow> run n (Mark_many (table_data_mem t) (table_capacity t)) h1)))
      | Mark_struct st \<Rightarrow>
          (case dst_gc_reachable h (dst_struct_raw st) of
             None \<Rightarrow> Fault
           | Some True \<Rightarrow> Done h
           | Some False \<Rightarrow>
               (case dst_gc_mark h (dst_struct_raw st) of
                  None \<Rightarrow> Fault
                | Some h1 \<Rightarrow>
                    (case struct_at h1 (dst_struct_raw st) of
                       None \<Rightarrow> Fault
                     | Some s \<Rightarrow> run n (Mark_many (struct_mem s) (struct_capacity s)) h1)))
      | Mark_tuple tuple \<Rightarrow>
          (case dst_gc_reachable h (dst_tuple_raw tuple) of
             None \<Rightarrow> Fault
           | Some True \<Rightarrow> Done h
           | Some False \<Rightarrow>
               (case dst_gc_mark h (dst_tuple_raw tuple) of
                  None \<Rightarrow> Fault
                | Some h1 \<Rightarrow>
                    (case tuple_at h1 (dst_tuple_raw tuple) of
                       None \<Rightarrow> Fault
                     | Some t \<Rightarrow> run n (Mark_many (tuple_mem t) (tuple_length t)) h1)))
      | Mark_funcenv env \<Rightarrow>
          (case dst_gc_reachable h env of
             None \<Rightarrow> Fault
           | Some True \<Rightarrow> Done h
           | Some False \<Rightarrow>
               (case dst_gc_mark h env of
                  None \<Rightarrow> Fault
                | Some h1 \<Rightarrow>
                    (case funcenv_at h1 env of
                       None \<Rightarrow> Fault
                     | Some e \<Rightarrow>
                         if offset e \<noteq> 0 then run n (Mark_fiber (as_union e)) h1
                         else run n (Mark_many (as_values_mem e) (env_length e)) h1)))
      | Mark_funcdef def \<Rightarrow>
          (case dst_gc_reachable h def of
             None \<Rightarrow> Fault
           | Some True \<Rightarrow> Done h
           | Some False \<Rightarrow>
               (case dst_gc_mark h def of
                  None \<Rightarrow> Fault
                | Some h1 \<Rightarrow>
                    (case funcdef_at h1 def of
                       None \<Rightarrow> Fault
                     | Some d \<Rightarrow>
                         if constants d \<noteq> 0
                         then run n (Mark_constants (constants_mem d) (constants_length d)) h1
                         else Done h1)))
      | Mark_constants cs k \<Rightarrow>
          (case k of
             0 \<Rightarrow> Done h
           | Suc k' \<Rightarrow>
               (case cs of
                  [] \<Rightarrow> Fault
                | v # cs' \<Rightarrow>
                    (case (if vtype v = DST_BOOLEAN then run n (Mark_funcdef (as_pointer v)) h
                           else run n (Mark v) h) of
                       Done h' \<Rightarrow> run n (Mark_constants cs' k') h'
                     | Fault \<Rightarrow> Fault
                     | OutOfFuel \<Rightarrow> OutOfFuel)))
      | Mark_function fn \<Rightarrow>
          (case dst_gc_reachable h fn of
             None \<Rightarrow> Fault
           | Some True \<Rightarrow> Done h
           | Some False \<Rightarrow>
               (case dst_gc_mark h fn of
                  None \<Rightarrow> Fault
                | Some h1 \<Rightarrow>
                    (case function_at h1 fn of
                       None \<Rightarrow> Fault
                     | Some f \<Rightarrow>
                         (case funcdef_at h1 (fn_def f) of
                            None \<Rightarrow> Fault
                          | Some d \<Rightarrow>
                              let numenvs = environments_length d in
                              (case (if envs f \<noteq> 0
                                     then run n (Mark_envs (envs_mem f) numenvs) h1
                                     else Done h1) of
                                 Done h2 \<Rightarrow> run n (Mark_funcdef (fn_def f)) h2
                               | Fault \<Rightarrow> Fault
                               | OutOfFuel \<Rightarrow> OutOfFuel)))))
      | Mark_envs es k \<Rightarrow>
          (case k of
             0 \<Rightarrow> Done h
           | Suc k' \<Rightarrow>
               (case es of
                  [] \<Rightarrow> Fault
                | e # es' \<Rightarrow>
                    (case (if e \<noteq> 0 then run n (Mark_funcenv e) h else Done h) of
                       Done h' \<Rightarrow> run n (Mark_envs es' k') h'
                     | Fault \<Rightarrow> Fault
                     | OutOfFuel \<Rightarrow> OutOfFuel)))
      | Mark_fiber fiber \<Rightarrow>
          (case dst_gc_reachable h fiber of
             None \<Rightarrow> Fault
           | Some True \<Rightarrow> Done h
           | Some False \<Rightarrow>
               (case dst_gc_mark h fiber of
                  None \<Rightarrow> Fault
                | Some h1 \<Rightarrow>
                    (case fiber_at h1 fiber of
                       None \<Rightarrow> Fault
                     | Some f \<Rightarrow>
                         (case run n (Mark_frames f (frame f) (frametop f)) h1 of
                            Done h2 \<Rightarrow>
                              (case (if parent f \<noteq> 0 then run n (Mark_fiber (parent f)) h2
                                     else Done h2) of
                                 Done h3 \<Rightarrow> run n (Mark (ret f)) h3
                               | Fault \<Rightarrow> Fault
                               | OutOfFuel \<Rightarrow> OutOfFuel)
                          | Fault \<Rightarrow> Fault
                          | OutOfFuel \<Rightarrow> OutOfFuel))))
      | Mark_frames f i j \<Rightarrow>
          (if i \<noteq> 0 then
             (case read_frame f i of
                None \<Rightarrow> Fault
              | Some fr \<Rightarrow>
                  (case (if func fr \<noteq> 0 then run n (Mark_function (func fr)) h
                         else Done h) of
                     Done h1 \<Rightarrow>
                       (case read_values (drop i (fiber_data_mem f)) (u32_sub j i) of
                          None \<Rightarrow> Fault
                        | Some vs \<Rightarrow>
                            (case run n (Mark_many vs (u32_sub j i)) h1 of
                               Done h2 \<Rightarrow>
                                 run n (Mark_frames f (prevframe fr) (u32_sub i DST_FRAME_SIZE)) h2
                             | Fault \<Rightarrow> Fault
                             | OutOfFuel \<Rightarrow> OutOfFuel))
                   | Fault \<Rightarrow> Fault
                   | OutOfFuel \<Rightarrow> OutOfFuel))
           else Done h))"

text \<open>The routines under the names of the source.\<close>

definition dst_mark :: "nat \<Rightarrow> DstValue \<Rightarrow> heap \<Rightarrow> heap result" where
  "dst_mark n x h = run n (Mark x) h"

definition dst_mark_many :: "nat \<Rightarrow> DstValue list \<Rightarrow> nat \<Rightarrow> heap \<Rightarrow> heap result" where
  "dst_mark_many n values k h = run n (Mark_many values k) h"

definition dst_mark_array :: "nat \<Rightarrow> addr \<Rightarrow> heap \<Rightarrow> heap result" where
  "dst_mark_array n array h = run n (Mark_array array) h"

definition dst_mark_table :: "nat \<Rightarrow> addr \<Rightarrow> heap \<Rightarrow> heap result" where
  "dst_mark_table n table h = run n (Mark_table table) h"

definition dst_mark_struct :: "nat \<Rightarrow> addr \<Rightarrow> heap \<Rightarrow> heap result" where
  "dst_mark_struct n st h = run n (Mark_struct st) h"

definition dst_mark_tuple :: "nat \<Rightarrow> addr \<Rightarrow> heap \<Rightarrow> heap result" where
  "dst_mark_tuple n tuple h = run n (Mark_tuple tuple) h"

definition dst_mark_funcenv :: "nat \<Rightarrow> addr \<Rightarrow> heap \<Rightarrow> heap result" where
  "dst_mark_funcenv n env h = run n (Mark_funcenv env) h"

definition dst_mark_funcdef :: "nat \<Rightarrow> addr \<Rightarrow> heap \<Rightarrow> heap result" where
  "dst_mark_funcdef n def h = run n (Mark_funcdef def) h"

definition dst_mark_function :: "nat \<Rightarrow> addr \<Rightarrow> heap \<Rightarrow> heap result" where
  "dst_mark_function n fn h = run n (Mark_function fn) h"

definition dst_mark_fiber :: "nat \<Rightarrow> addr \<Rightarrow> heap \<Rightarrow> heap result" where
  "dst_mark_fiber n fiber h = run n (Mark_fiber fiber) h"

section \<open>Reachability, as the tracing rules of the spec define it\<close>

text \<open>The header address of the block a value points to; none for nil, booleans, numbers.\<close>

definition value_block :: "DstValue \<Rightarrow> addr option" where
  "value_block x =
     (case vtype x of
        DST_STRING \<Rightarrow> Some (dst_gc_header (dst_string_raw (as_pointer x)))
      | DST_SYMBOL \<Rightarrow> Some (dst_gc_header (dst_string_raw (as_pointer x)))
      | DST_FUNCTION \<Rightarrow> Some (dst_gc_header (as_pointer x))
      | DST_ARRAY \<Rightarrow> Some (dst_gc_header (as_pointer x))
      | DST_TABLE \<Rightarrow> Some (dst_gc_header (as_pointer x))
      | DST_STRUCT \<Rightarrow> Some (dst_gc_header (dst_struct_raw (as_pointer x)))
      | DST_TUPLE \<Rightarrow> Some (dst_gc_header (dst_tuple_raw (as_pointer x)))
      | DST_BUFFER \<Rightarrow> Some (dst_gc_header (as_pointer x))
      | DST_FIBER \<Rightarrow> Some (dst_gc_header (as_pointer x))
      | DST_USERDATA \<Rightarrow> Some (dst_gc_header (dst_userdata_header (as_pointer x)))
      | _ \<Rightarrow> None)"

definition value_blocks :: "DstValue list \<Rightarrow> addr set" where
  "value_blocks vs = {a. \<exists>v\<in>set vs. value_block v = Some a}"

text \<open>A constant of a funcdef: a boolean-tagged one is a reference to a nested funcdef.\<close>

definition constant_block :: "DstValue \<Rightarrow> addr option" where
  "constant_block v =
     (if vtype v = DST_BOOLEAN then Some (dst_gc_header (as_pointer v)) else value_block v)"

definition constant_blocks :: "DstValue list \<Rightarrow> addr set" where
  "constant_blocks vs = {a. \<exists>v\<in>set vs. constant_block v = Some a}"

definition env_blocks :: "addr list \<Rightarrow> addr set" where
  "env_blocks es = {a. \<exists>e\<in>set es. e \<noteq> 0 \<and> a = dst_gc_header e}"

text \<open>
  The references held by the frames of a fiber, walking the chain from the frame with base
  \<open>i\<close> and top \<open>j\<close>: the function of the frame, the values in its slots, and the references
  of the frames below it.
\<close>

inductive frame_ref :: "DstFiber \<Rightarrow> nat \<Rightarrow> nat \<Rightarrow> addr \<Rightarrow> bool" for f where
  frame_func:
    "i \<noteq> 0 \<Longrightarrow> read_frame f i = Some fr \<Longrightarrow> func fr \<noteq> 0
     \<Longrightarrow> frame_ref f i j (dst_gc_header (func fr))"
| frame_slot:
    "i \<noteq> 0 \<Longrightarrow> read_values (drop i (fiber_data_mem f)) (u32_sub j i) = Some vs
     \<Longrightarrow> a \<in> value_blocks vs \<Longrightarrow> frame_ref f i j a"
| frame_prev:
    "i \<noteq> 0 \<Longrightarrow> read_frame f i = Some fr
     \<Longrightarrow> frame_ref f (prevframe fr) (u32_sub i DST_FRAME_SIZE) a \<Longrightarrow> frame_ref f i j a"

text \<open>
  The outgoing references of a block, kind by kind (spec, section 4.2): strings, symbols,
  buffers and userdata hold none; an array \<open>data[0..count]\<close>, a table \<open>data[0..capacity]\<close>, a
  tuple \<open>data[0..length]\<close>, a struct \<open>data[0..capacity]\<close>; a funcdef its constants if
  \<open>constants\<close> is non-null; a funcenv its fiber if \<open>offset \<noteq> 0\<close> and else
  \<open>as.values[0..length]\<close>; a function the non-null entries of
  \<open>envs[0..def.environments_length]\<close> and its \<open>def\<close>; a fiber the references of its frames,
  its parent if non-null, and \<open>ret\<close>.
\<close>

definition refs :: "heap \<Rightarrow> body \<Rightarrow> addr set" where
  "refs h bd =
     (case bd of
        BArray a \<Rightarrow> value_blocks (take (array_count a) (array_data_mem a))
      | BTable t \<Rightarrow> value_blocks (take (table_capacity t) (table_data_mem t))
      | BTuple t \<Rightarrow> value_blocks (take (tuple_length t) (tuple_mem t))
      | BStruct s \<Rightarrow> value_blocks (take (struct_capacity s) (struct_mem s))
      | BFuncDef d \<Rightarrow>
          (if constants d \<noteq> 0
           then constant_blocks (take (constants_length d) (constants_mem d)) else {})
      | BFuncEnv e \<Rightarrow>
          (if offset e \<noteq> 0 then {dst_gc_header (as_union e)}
           else value_blocks (take (env_length e) (as_values_mem e)))
      | BFunction f \<Rightarrow>
          (case funcdef_at h (fn_def f) of
             None \<Rightarrow> {}
           | Some d \<Rightarrow>
               if envs f \<noteq> 0 then env_blocks (take (environments_length d) (envs_mem f))
               else {})
          \<union> {dst_gc_header (fn_def f)}
      | BFiber f \<Rightarrow>
          {a. frame_ref f (frame f) (frametop f) a}
          \<union> (if parent f \<noteq> 0 then {dst_gc_header (parent f)} else {})
          \<union> value_blocks [ret f]
      | _ \<Rightarrow> {})"



definition marked :: "heap \<Rightarrow> addr set" where
  "marked h = {a. \<exists>b. block_at h a = Some b \<and> flags b AND DST_MEM_REACHABLE \<noteq> 0}"

definition unmarked :: "heap \<Rightarrow> addr set" where
  "unmarked h = {a. \<exists>b. block_at h a = Some b \<and> flags b AND DST_MEM_REACHABLE = 0}"

text \<open>\<open>mark_ext h h'\<close>: \<open>h'\<close> is \<open>h\<close> with the reachable bit set on some more blocks.\<close>

definition mark_ext :: "heap \<Rightarrow> heap \<Rightarrow> bool" where
  "mark_ext h h' \<longleftrightarrow>
     (\<forall>a. case block_at h a of
             None \<Rightarrow> block_at h' a = None
           | Some b \<Rightarrow>
               block_at h' a = Some b
               \<or> block_at h' a = Some (b\<lparr>flags := flags b OR DST_MEM_REACHABLE\<rparr>))"

section \<open>The structure of a mark call\<close>

text \<open>The calls of a sequence, one after the other, each on the heap the one before left.\<close>

primrec run_seq :: "nat \<Rightarrow> call list \<Rightarrow> heap \<Rightarrow> heap result" where
  "run_seq n [] h = Done h"
| "run_seq n (c # cs) h =
     (case run n c h of
        Done h' \<Rightarrow> run_seq n cs h'
      | Fault \<Rightarrow> Fault
      | OutOfFuel \<Rightarrow> OutOfFuel)"

text \<open>The calls a kind-specific routine makes after it has marked a block with this body.\<close>

definition children :: "heap \<Rightarrow> body \<Rightarrow> call list" where
  "children h bd =
     (case bd of
        BArray a \<Rightarrow> [Mark_many (array_data_mem a) (array_count a)]
      | BTable t \<Rightarrow> [Mark_many (table_data_mem t) (table_capacity t)]
      | BTuple t \<Rightarrow> [Mark_many (tuple_mem t) (tuple_length t)]
      | BStruct s \<Rightarrow> [Mark_many (struct_mem s) (struct_capacity s)]
      | BFuncDef d \<Rightarrow>
          (if constants d \<noteq> 0 then [Mark_constants (constants_mem d) (constants_length d)]
           else [])
      | BFuncEnv e \<Rightarrow>
          [if offset e \<noteq> 0 then Mark_fiber (as_union e)
           else Mark_many (as_values_mem e) (env_length e)]
      | BFunction f \<Rightarrow>
          (case funcdef_at h (fn_def f) of
             None \<Rightarrow> []
           | Some d \<Rightarrow>
               if envs f \<noteq> 0 then [Mark_envs (envs_mem f) (environments_length d)] else [])
          @ [Mark_funcdef (fn_def f)]
      | BFiber f \<Rightarrow>
          Mark_frames f (frame f) (frametop f)
          # (if parent f \<noteq> 0 then [Mark_fiber (parent f)] else [])
          @ [Mark (ret f)]
      | _ \<Rightarrow> [])"

text \<open>
  One call, unfolded once: it faults, returns a heap, or goes on with a heap and a sequence
  of calls.
\<close>

datatype action = AFault | AReturn heap | ACalls heap "call list"

definition enter :: "heap \<Rightarrow> addr \<Rightarrow> (heap \<Rightarrow> action) \<Rightarrow> action" where
  "enter h m k =
     (case dst_gc_reachable h m of
        None \<Rightarrow> AFault
      | Some True \<Rightarrow> AReturn h
      | Some False \<Rightarrow> (case dst_gc_mark h m of None \<Rightarrow> AFault | Some h1 \<Rightarrow> k h1))"

definition leaf :: "heap result \<Rightarrow> action" where
  "leaf r = (case r of Done h' \<Rightarrow> AReturn h' | _ \<Rightarrow> AFault)"

definition descend :: "heap \<Rightarrow> addr \<Rightarrow> (heap \<Rightarrow> body option) \<Rightarrow> action" where
  "descend h m rd =
     enter h m (\<lambda>h1. case rd h1 of
                        None \<Rightarrow> AFault
                      | Some bd \<Rightarrow> ACalls h1 (children h1 bd))"

definition expand :: "heap \<Rightarrow> call \<Rightarrow> action" where
  "expand h c =
     (case c of
        Mark x \<Rightarrow>
          (case vtype x of
             DST_STRING \<Rightarrow> leaf (dst_mark_string (as_pointer x) h)
           | DST_SYMBOL \<Rightarrow> leaf (dst_mark_string (as_pointer x) h)
           | DST_FUNCTION \<Rightarrow> ACalls h [Mark_function (as_pointer x)]
           | DST_ARRAY \<Rightarrow> ACalls h [Mark_array (as_pointer x)]
           | DST_TABLE \<Rightarrow> ACalls h [Mark_table (as_pointer x)]
           | DST_STRUCT \<Rightarrow> ACalls h [Mark_struct (as_pointer x)]
           | DST_TUPLE \<Rightarrow> ACalls h [Mark_tuple (as_pointer x)]
           | DST_BUFFER \<Rightarrow> leaf (dst_mark_buffer (as_pointer x) h)
           | DST_FIBER \<Rightarrow> ACalls h [Mark_fiber (as_pointer x)]
           | DST_USERDATA \<Rightarrow> leaf (dst_mark_udata (as_pointer x) h)
           | _ \<Rightarrow> AReturn h)
      | Mark_many values k \<Rightarrow>
          (case k of
             0 \<Rightarrow> AReturn h
           | Suc k' \<Rightarrow>
               (case values of
                  [] \<Rightarrow> AFault
                | v # values' \<Rightarrow> ACalls h [Mark v, Mark_many values' k']))
      | Mark_array m \<Rightarrow> descend h m (\<lambda>h1. map_option BArray (array_at h1 m))
      | Mark_table m \<Rightarrow> descend h m (\<lambda>h1. map_option BTable (table_at h1 m))
      | Mark_struct m \<Rightarrow>
          descend h (dst_struct_raw m) (\<lambda>h1. map_option BStruct (struct_at h1 (dst_struct_raw m)))
      | Mark_tuple m \<Rightarrow>
          descend h (dst_tuple_raw m) (\<lambda>h1. map_option BTuple (tuple_at h1 (dst_tuple_raw m)))
      | Mark_funcenv m \<Rightarrow> descend h m (\<lambda>h1. map_option BFuncEnv (funcenv_at h1 m))
      | Mark_funcdef m \<Rightarrow> descend h m (\<lambda>h1. map_option BFuncDef (funcdef_at h1 m))
      | Mark_constants cs k \<Rightarrow>
          (case k of
             0 \<Rightarrow> AReturn h
           | Suc k' \<Rightarrow>
               (case cs of
                  [] \<Rightarrow> AFault
                | v # cs' \<Rightarrow>
                    ACalls h [if vtype v = DST_BOOLEAN then Mark_funcdef (as_pointer v)
                              else Mark v,
                              Mark_constants cs' k']))
      | Mark_function m \<Rightarrow>
          descend h m
            (\<lambda>h1. case function_at h1 m of
                    None \<Rightarrow> None
                  | Some f \<Rightarrow>
                      if funcdef_at h1 (fn_def f) = None then None else Some (BFunction f))
      | Mark_envs es k \<Rightarrow>
          (case k of
             0 \<Rightarrow> AReturn h
           | Suc k' \<Rightarrow>
               (case es of
                  [] \<Rightarrow> AFault
                | e # es' \<Rightarrow>
                    ACalls h ((if e \<noteq> 0 then [Mark_funcenv e] else []) @ [Mark_envs es' k'])))
      | Mark_fiber m \<Rightarrow> descend h m (\<lambda>h1. map_option BFiber (fiber_at h1 m))
      | Mark_frames f i j \<Rightarrow>
          (if i \<noteq> 0 then
             (case read_frame f i of
                None \<Rightarrow> AFault
              | Some fr \<Rightarrow>
                  (case read_values (drop i (fiber_data_mem f)) (u32_sub j i) of
                     None \<Rightarrow> AFault
                   | Some vs \<Rightarrow>
                       ACalls h ((if func fr \<noteq> 0 then [Mark_function (func fr)] else [])
                                 @ [Mark_many vs (u32_sub j i),
                                    Mark_frames f (prevframe fr) (u32_sub i DST_FRAME_SIZE)])))
           else AReturn h))"

text \<open>The blocks a call has to leave marked.\<close>

definition targets :: "call \<Rightarrow> addr set" where
  "targets c =
     (case c of
        Mark x \<Rightarrow> value_blocks [x]
      | Mark_many values k \<Rightarrow> value_blocks (take k values)
      | Mark_array m \<Rightarrow> {dst_gc_header m}
      | Mark_table m \<Rightarrow> {dst_gc_header m}
      | Mark_struct m \<Rightarrow> {dst_gc_header (dst_struct_raw m)}
      | Mark_tuple m \<Rightarrow> {dst_gc_header (dst_tuple_raw m)}
      | Mark_funcenv m \<Rightarrow> {dst_gc_header m}
      | Mark_funcdef m \<Rightarrow> {dst_gc_header m}
      | Mark_constants cs k \<Rightarrow> constant_blocks (take k cs)
      | Mark_function m \<Rightarrow> {dst_gc_header m}
      | Mark_envs es k \<Rightarrow> env_blocks (take k es)
      | Mark_fiber m \<Rightarrow> {dst_gc_header m}
      | Mark_frames f i j \<Rightarrow> {a. frame_ref f i j a})"

text \<open>
  \<open>marks_closed T h h'\<close>: from \<open>h\<close> to \<open>h'\<close> only reachable bits were set, the blocks \<open>T\<close>
  are marked in \<open>h'\<close>, and every block that became marked has all its references marked.
\<close>

definition marks_closed :: "addr set \<Rightarrow> heap \<Rightarrow> heap \<Rightarrow> bool" where
  "marks_closed T h h' \<longleftrightarrow>
     mark_ext h h' \<and> T \<subseteq> marked h'
     \<and> (\<forall>a b. block_at h a = Some b \<longrightarrow> a \<in> marked h' \<longrightarrow> a \<notin> marked h
            \<longrightarrow> refs h (body b) \<subseteq> marked h')"

section \<open>Well-formed heaps\<close>

text \<open>A value of a heap kind points to a block of that kind.\<close>

definition wf_value :: "heap \<Rightarrow> DstValue \<Rightarrow> bool" where
  "wf_value h x =
     (case vtype x of
        DST_STRING \<Rightarrow> body_at h (dst_string_raw (as_pointer x)) = Some BString
      | DST_SYMBOL \<Rightarrow> body_at h (dst_string_raw (as_pointer x)) = Some BString
      | DST_FUNCTION \<Rightarrow> function_at h (as_pointer x) \<noteq> None
      | DST_ARRAY \<Rightarrow> array_at h (as_pointer x) \<noteq> None
      | DST_TABLE \<Rightarrow> table_at h (as_pointer x) \<noteq> None
      | DST_STRUCT \<Rightarrow> struct_at h (dst_struct_raw (as_pointer x)) \<noteq> None
      | DST_TUPLE \<Rightarrow> tuple_at h (dst_tuple_raw (as_pointer x)) \<noteq> None
      | DST_BUFFER \<Rightarrow>
          (case body_at h (as_pointer x) of Some (BBuffer _) \<Rightarrow> True | _ \<Rightarrow> False)
      | DST_FIBER \<Rightarrow> fiber_at h (as_pointer x) \<noteq> None
      | DST_USERDATA \<Rightarrow>
          (case body_at h (dst_userdata_header (as_pointer x)) of
             Some (BUserdata _) \<Rightarrow> True | _ \<Rightarrow> False)
      | _ \<Rightarrow> True)"

text \<open>
  The frame chain of a fiber from the frame with base \<open>i\<close> and top \<open>j\<close> is well formed: every
  frame header is where the chain says, its function (if any) is a function, its slots hold
  well-formed values, and the previous frame lies below it.
\<close>

inductive wf_frames :: "heap \<Rightarrow> DstFiber \<Rightarrow> nat \<Rightarrow> nat \<Rightarrow> bool" for h f where
  wf_frames_bottom: "wf_frames h f 0 j"
| wf_frames_frame:
    "i \<noteq> 0 \<Longrightarrow> read_frame f i = Some fr \<Longrightarrow> prevframe fr < i
     \<Longrightarrow> func fr \<noteq> 0 \<longrightarrow> (function_at h (func fr) \<noteq> None
           \<and> (case function_at h (func fr) of None \<Rightarrow> False
               | Some g \<Rightarrow> funcdef_at h (fn_def g) \<noteq> None))
     \<Longrightarrow> u32_sub j i < 2 ^ 32
     \<Longrightarrow> read_values (drop i (fiber_data_mem f)) (u32_sub j i) = Some vs
     \<Longrightarrow> \<forall>v\<in>set vs. wf_value h v
     \<Longrightarrow> wf_frames h f (prevframe fr) (u32_sub i DST_FRAME_SIZE)
     \<Longrightarrow> wf_frames h f i j"

text \<open>The arguments of a call are valid in the heap.\<close>

definition wf_call :: "heap \<Rightarrow> call \<Rightarrow> bool" where
  "wf_call h c =
     (case c of
        Mark x \<Rightarrow> wf_value h x
      | Mark_many values k \<Rightarrow> k \<le> length values \<and> (\<forall>v\<in>set (take k values). wf_value h v)
      | Mark_array m \<Rightarrow> array_at h m \<noteq> None
      | Mark_table m \<Rightarrow> table_at h m \<noteq> None
      | Mark_struct m \<Rightarrow> struct_at h (dst_struct_raw m) \<noteq> None
      | Mark_tuple m \<Rightarrow> tuple_at h (dst_tuple_raw m) \<noteq> None
      | Mark_funcenv m \<Rightarrow> funcenv_at h m \<noteq> None
      | Mark_funcdef m \<Rightarrow> funcdef_at h m \<noteq> None
      | Mark_constants cs k \<Rightarrow>
          k \<le> length cs
          \<and> (\<forall>v\<in>set (take k cs).
                if vtype v = DST_BOOLEAN then funcdef_at h (as_pointer v) \<noteq> None
                else wf_value h v)
      | Mark_function m \<Rightarrow>
          (case function_at h m of
             None \<Rightarrow> False
           | Some g \<Rightarrow> funcdef_at h (fn_def g) \<noteq> None)
      | Mark_envs es k \<Rightarrow>
          k \<le> length es \<and> (\<forall>e\<in>set (take k es). e \<noteq> 0 \<longrightarrow> funcenv_at h e \<noteq> None)
      | Mark_fiber m \<Rightarrow> fiber_at h m \<noteq> None
      | Mark_frames f i j \<Rightarrow> wf_frames h f i j)"

text \<open>
  A heap is well formed when it has finitely many blocks and every call the tracer makes for
  the body of a block has valid arguments.
\<close>

definition wf_heap :: "heap \<Rightarrow> bool" where
  "wf_heap h \<longleftrightarrow>
     finite (dom h)
     \<and> (\<forall>a b. block_at h a = Some b \<longrightarrow> (\<forall>c\<in>set (children h (body b)). wf_call h c))"

text \<open>A measure of the work a call has left, beside the number of unmarked blocks.\<close>

definition rank :: "call \<Rightarrow> nat" where
  "rank c =
     (case c of
        Mark x \<Rightarrow> 1
      | Mark_many values k \<Rightarrow> 2 + k
      | Mark_constants cs k \<Rightarrow> 2 + k
      | Mark_envs es k \<Rightarrow> 1 + k
      | Mark_frames f i j \<Rightarrow> 3 + 2 ^ 32 + i
      | _ \<Rightarrow> 0)"

text \<open>The pointer whose header a kind-specific routine tests and marks.\<close>

definition call_block :: "call \<Rightarrow> addr option" where
  "call_block c =
     (case c of
        Mark_array m \<Rightarrow> Some m
      | Mark_table m \<Rightarrow> Some m
      | Mark_struct m \<Rightarrow> Some (dst_struct_raw m)
      | Mark_tuple m \<Rightarrow> Some (dst_tuple_raw m)
      | Mark_funcenv m \<Rightarrow> Some m
      | Mark_funcdef m \<Rightarrow> Some m
      | Mark_function m \<Rightarrow> Some m
      | Mark_fiber m \<Rightarrow> Some m
      | _ \<Rightarrow> None)"

text \<open>
  What one unfolding of a well-formed call leaves to do: valid calls, on a heap with fewer
  unmarked blocks or, on the same heap, of smaller rank, whose marks give those of the call.
\<close>

definition step_ok :: "heap \<Rightarrow> call \<Rightarrow> heap \<Rightarrow> call list \<Rightarrow> bool" where
  "step_ok h c h1 cs \<longleftrightarrow>
     (\<forall>ci\<in>set cs. wf_call h1 ci)
     \<and> mark_ext h h1
     \<and> (card (unmarked h1) < card (unmarked h) \<or> (h1 = h \<and> (\<forall>ci\<in>set cs. rank ci < rank c)))
     \<and> (\<forall>h'. marks_closed (\<Union>(targets ` set cs)) h1 h' \<longrightarrow> marks_closed (targets c) h h')"

text \<open>A call returns \<open>h'\<close> whenever it is given enough fuel.\<close>

definition returns :: "call \<Rightarrow> heap \<Rightarrow> heap \<Rightarrow> bool" where
  "returns c h h' \<longleftrightarrow> (\<exists>N. \<forall>n\<ge>N. run n c h = Done h')"

definition returns_seq :: "call list \<Rightarrow> heap \<Rightarrow> heap \<Rightarrow> bool" where
  "returns_seq cs h h' \<longleftrightarrow> (\<exists>N. \<forall>n\<ge>N. run_seq n cs h = Done h')"

section \<open>dst_collect\<close>


section \<open>What a collection has to achieve\<close>








section \<open>Example heaps\<close>



text \<open>An underlying allocator that returns the address 64 whatever the size.\<close>

definition malloc_64 :: "nat \<Rightarrow> addr" where
  "malloc_64 n = 64"

text \<open>
  A heap with cycles and sharing. Header addresses and body pointers: a table (16, body 32)
  that contains itself; a fiber (48, body 64) that is its own parent, with one stack frame
  whose function is the function below and whose one slot holds the table; a function (80,
  body 96) with a null \<open>envs\<close>; the funcdefs A (112, body 128) and B (144, body 160), each a
  constant of the other; a funcdef C (208, body 224) with a null \<open>constants\<close> and a non-zero
  \<open>constants_length\<close>; a string (176, characters at 200), a constant of A.
\<close>

definition cyclic_example :: heap where
  "cyclic_example =
     [16 \<mapsto> \<lparr>nxt = 48, flags = 5,
              body = BTable \<lparr>table_data = 1000,
                             table_data_mem = [\<lparr>vtype = DST_TABLE, as_pointer = 32\<rparr>],
                             table_capacity = 1\<rparr>\<rparr>,
      48 \<mapsto> \<lparr>nxt = 80, flags = 7,
              body = BFiber \<lparr>fiber_data = 5000,
                             fiber_data_mem =
                               [SlotFrame \<lparr>func = 96, prevframe = 0\<rparr>, SlotPad,
                                SlotValue \<lparr>vtype = DST_TABLE, as_pointer = 32\<rparr>],
                             frame = 2, frametop = 3, parent = 64,
                             ret = \<lparr>vtype = DST_NIL, as_pointer = 0\<rparr>\<rparr>\<rparr>,
      80 \<mapsto> \<lparr>nxt = 112, flags = 9,
              body = BFunction \<lparr>fn_def = 128, envs = 0, envs_mem = []\<rparr>\<rparr>,
      112 \<mapsto> \<lparr>nxt = 144, flags = 12,
               body = BFuncDef \<lparr>environments = 0, environments_length = 0, constants = 6000,
                                constants_mem = [\<lparr>vtype = DST_BOOLEAN, as_pointer = 160\<rparr>,
                                                 \<lparr>vtype = DST_STRING, as_pointer = 200\<rparr>],
                                constants_length = 2, bytecode = 0\<rparr>\<rparr>,
      144 \<mapsto> \<lparr>nxt = 176, flags = 12,
               body = BFuncDef \<lparr>environments = 0, environments_length = 0, constants = 7000,
                                constants_mem = [\<lparr>vtype = DST_BOOLEAN, as_pointer = 128\<rparr>,
                                                 \<lparr>vtype = DST_BOOLEAN, as_pointer = 224\<rparr>],
                                constants_length = 2, bytecode = 0\<rparr>\<rparr>,
      176 \<mapsto> \<lparr>nxt = 208, flags = 1, body = BString\<rparr>,
      208 \<mapsto> \<lparr>nxt = 0, flags = 12,
               body = BFuncDef \<lparr>environments = 0, environments_length = 0, constants = 0,
                                constants_mem = [], constants_length = 3, bytecode = 0\<rparr>\<rparr>]"

text \<open>A function (header 80, body 96) whose \<open>def\<close> and \<open>envs\<close> are both null.\<close>

definition dangling_example :: heap where
  "dangling_example =
     [80 \<mapsto> \<lparr>nxt = 0, flags = 9, body = BFunction \<lparr>fn_def = 0, envs = 0, envs_mem = []\<rparr>\<rparr>]"




section \<open>Flag arithmetic\<close>

lemma word32_eq_iff: "(a :: 32 word) = b \<longleftrightarrow> (\<forall>n<32. bit a n = bit b n)"
  using bit_eq_iff [of a b] by (simp add: possible_bit_word)

lemma bit_REACHABLE: "bit DST_MEM_REACHABLE n = (n = 8)"
proof -
  have e: "DST_MEM_REACHABLE = 2 ^ 8" by (simp add: DST_MEM_REACHABLE_def)
  show ?thesis unfolding e by (simp only: bit_exp_iff possible_bit_word) auto
qed


lemma bit_TYPEBITS: "bit DST_MEM_TYPEBITS n = (n < 8)"
proof -
  have e: "DST_MEM_TYPEBITS = mask 8" by (simp add: DST_MEM_TYPEBITS_def mask_eq_exp_minus_1)
  show ?thesis unfolding e by (simp only: bit_mask_iff possible_bit_word) auto
qed

lemma test_REACHABLE: "(f AND DST_MEM_REACHABLE \<noteq> 0) = bit f 8"
  by (auto simp add: word32_eq_iff bit_and_iff bit_REACHABLE)



lemma bit_set_REACHABLE: "bit (f OR DST_MEM_REACHABLE) n = (bit f n \<or> n = 8)"
  by (auto simp add: bit_or_iff bit_REACHABLE)

lemma bit_clear_REACHABLE: "bit (f AND NOT DST_MEM_REACHABLE) n = (bit f n \<and> n \<noteq> 8)"
  by (auto simp add: bit_and_iff bit_not_iff bit_REACHABLE dest: bit_imp_le_length)

lemma typebits_set_REACHABLE:
  "(f OR DST_MEM_REACHABLE) AND DST_MEM_TYPEBITS = f AND DST_MEM_TYPEBITS"
  by (auto simp add: word32_eq_iff bit_and_iff bit_or_iff bit_REACHABLE bit_TYPEBITS)

lemma typebits_clear_REACHABLE:
  "(f AND NOT DST_MEM_REACHABLE) AND DST_MEM_TYPEBITS = f AND DST_MEM_TYPEBITS"
  by (auto simp add: word32_eq_iff bit_and_iff bit_not_iff bit_REACHABLE bit_TYPEBITS)

lemma mem_tag_bits:
  "mem_tag t AND DST_MEM_REACHABLE = 0"
  "mem_tag t AND DST_MEM_DISABLED = 0"
  "mem_tag t AND DST_MEM_TYPEBITS = mem_tag t"
  by (cases t; simp add: DST_MEM_REACHABLE_def DST_MEM_DISABLED_def DST_MEM_TYPEBITS_def)+

section \<open>Properties of dst_alloc\<close>

text \<open>
  C5. When the underlying allocator returns null (in an initialised runtime), \<open>dst_alloc\<close>
  fails with \<open>OutOfMemory\<close> and the state at the failure is the state before the call: no
  block is linked, the store and the counter of bytes since the last collection are unchanged.
\<close>

theorem dst_alloc_out_of_memory:
  assumes "dst_vm_cache st \<noteq> 0"
    and "malloc ((sz + sizeof_DstGCMemoryHeader) mod 2 ^ 64) = 0"
  shows "dst_alloc malloc type sz st = (st, Inl OutOfMemory)"
  using assms by (simp add: dst_alloc_def Let_def)

theorem dst_alloc_out_of_memory_witness:
  "dst_alloc (\<lambda>n. 0) DST_MEMORY_ARRAY 24
     \<lparr>blocks = Map.empty, dst_vm_blocks = 0, dst_vm_memory_interval = 0,
      dst_vm_next_collection = 7, dst_vm_fiber = 0, dst_vm_cache = 4096\<rparr>
   = (\<lparr>blocks = Map.empty, dst_vm_blocks = 0, dst_vm_memory_interval = 0,
       dst_vm_next_collection = 7, dst_vm_fiber = 0, dst_vm_cache = 4096\<rparr>, Inl OutOfMemory)"
  by (rule dst_alloc_out_of_memory) simp_all

lemma unat_counter_add:
  "unat ((c :: 32 word) + of_nat sz) = (unat c + sz) mod 2 ^ 32"
  by (simp add: unat_word_ariths unat_of_nat mod_add_right_eq)

text \<open>
  C6 (amended). A successful \<open>dst_alloc\<close> of a \<open>size_t\<close> size: the underlying allocator
  was asked for \<open>size\<close> plus the header, without wrap-around; the new block's flags are
  exactly the type tag, so its reachable and disabled bits are zero; the block is the new
  head of the global list and its \<open>next\<close> is the old head; the 32-bit counter is its old value plus \<open>size\<close>
  (not \<open>size\<close> plus the header) modulo \<open>2 ^ 32\<close>, and the plain sum when that fits 32 bits;
  the returned pointer is \<open>mem\<close> plus the size of the header. Nothing else changes.
\<close>

theorem dst_alloc_success:
  assumes "dst_alloc malloc type sz st = (st', Inr p)" and "sz < 2 ^ 64"
  shows "\<exists>mem. mem = malloc (sz + sizeof_DstGCMemoryHeader) \<and> mem \<noteq> 0
      \<and> sz + sizeof_DstGCMemoryHeader < 2 ^ 64
      \<and> block_at (blocks st') mem
          = Some \<lparr>nxt = dst_vm_blocks st, flags = mem_tag type, body = Uninit\<rparr>
      \<and> mem_tag type AND DST_MEM_REACHABLE = 0
      \<and> mem_tag type AND DST_MEM_DISABLED = 0
      \<and> mem_tag type AND DST_MEM_TYPEBITS = mem_tag type
      \<and> dst_vm_blocks st' = mem
      \<and> (\<forall>a. a \<noteq> mem \<longrightarrow> blocks st' a = blocks st a)
      \<and> unat (dst_vm_next_collection st') = (unat (dst_vm_next_collection st) + sz) mod 2 ^ 32
      \<and> (unat (dst_vm_next_collection st) + sz < 2 ^ 32
           \<longrightarrow> unat (dst_vm_next_collection st') = unat (dst_vm_next_collection st) + sz)
      \<and> p = mem + sizeof_DstGCMemoryHeader
      \<and> dst_vm_fiber st' = dst_vm_fiber st \<and> dst_vm_cache st' = dst_vm_cache st
      \<and> dst_vm_memory_interval st' = dst_vm_memory_interval st"
proof -
  have nowrap: "sz + sizeof_DstGCMemoryHeader < 2 ^ 64"
  proof (rule ccontr)
    assume "\<not> sz + sizeof_DstGCMemoryHeader < 2 ^ 64"
    then have ge: "2 ^ 64 \<le> sz + sizeof_DstGCMemoryHeader" by simp
    have "sz + sizeof_DstGCMemoryHeader < 2 ^ 64 + 2 ^ 64"
      using assms(2) by (simp add: sizeof_DstGCMemoryHeader_def)
    then have "(sz + sizeof_DstGCMemoryHeader) mod 2 ^ 64
                 = sz + sizeof_DstGCMemoryHeader - 2 ^ 64"
      using ge by (simp add: mod_if)
    then have "(sz + sizeof_DstGCMemoryHeader) mod 2 ^ 64 < sizeof_DstGCMemoryHeader"
      using assms(2) ge by simp
    then show False
      using assms(1) by (simp add: dst_alloc_def Let_def split: if_splits)
  qed
  then have m: "(sz + sizeof_DstGCMemoryHeader) mod 2 ^ 64 = sz + sizeof_DstGCMemoryHeader"
    by simp
  show ?thesis
    using assms(1) nowrap unfolding dst_alloc_def Let_def m
    by (auto simp add: block_at_def mem_tag_bits unat_counter_add split: if_splits)
qed

theorem dst_alloc_success_witness:
  "dst_alloc malloc_64 DST_MEMORY_TABLE 24
     \<lparr>blocks = Map.empty, dst_vm_blocks = 0, dst_vm_memory_interval = 0,
      dst_vm_next_collection = 7, dst_vm_fiber = 0, dst_vm_cache = 4096\<rparr>
   = (\<lparr>blocks = [64 \<mapsto> \<lparr>nxt = 0, flags = 5, body = Uninit\<rparr>], dst_vm_blocks = 64,
       dst_vm_memory_interval = 0, dst_vm_next_collection = 31, dst_vm_fiber = 0,
       dst_vm_cache = 4096\<rparr>, Inr 80)
   \<and> (24 :: nat) < 2 ^ 64
   \<and> block_at [64 \<mapsto> \<lparr>nxt = 0, flags = 5, body = Uninit\<rparr>] 64
       = Some \<lparr>nxt = 0, flags = mem_tag DST_MEMORY_TABLE, body = Uninit\<rparr>
   \<and> unat (31 :: 32 word) = unat (7 :: 32 word) + 24"
proof -
  let ?st = "\<lparr>blocks = Map.empty, dst_vm_blocks = 0, dst_vm_memory_interval = 0,
             dst_vm_next_collection = 7, dst_vm_fiber = 0, dst_vm_cache = 4096\<rparr>"
  let ?st' = "\<lparr>blocks = [64 \<mapsto> \<lparr>nxt = 0, flags = 5, body = Uninit\<rparr>], dst_vm_blocks = 64,
       dst_vm_memory_interval = 0, dst_vm_next_collection = 31, dst_vm_fiber = 0,
       dst_vm_cache = 4096\<rparr>"
  have r: "dst_alloc malloc_64 DST_MEMORY_TABLE 24 ?st = (?st', Inr 80)"
    by (simp add: dst_alloc_def Let_def sizeof_DstGCMemoryHeader_def malloc_64_def)
  have s: "(24 :: nat) < 2 ^ 64" by simp
  show ?thesis
    using dst_alloc_success [OF r s] r
    by (simp add: sizeof_DstGCMemoryHeader_def malloc_64_def)
qed

text \<open>
  C6 (the claim as stated fails). The counter does not always increase by \<open>size\<close>: it is
  a \<open>uint32_t\<close>. With the counter at \<open>4294967290\<close>, a successful allocation of 24 bytes
  leaves it at 18.
\<close>

theorem dst_alloc_counter_wraps:
  "dst_alloc malloc_64 DST_MEMORY_ARRAY 24
     \<lparr>blocks = Map.empty, dst_vm_blocks = 0, dst_vm_memory_interval = 0,
      dst_vm_next_collection = 4294967290, dst_vm_fiber = 0, dst_vm_cache = 4096\<rparr>
   = (\<lparr>blocks = [64 \<mapsto> \<lparr>nxt = 0, flags = 3, body = Uninit\<rparr>], dst_vm_blocks = 64,
       dst_vm_memory_interval = 0, dst_vm_next_collection = 18, dst_vm_fiber = 0,
       dst_vm_cache = 4096\<rparr>, Inr 80)
   \<and> unat (18 :: 32 word) \<noteq> unat (4294967290 :: 32 word) + 24"
  by (simp add: dst_alloc_def Let_def sizeof_DstGCMemoryHeader_def malloc_64_def)

text \<open>
  A size whose sum with the header wraps around \<open>size_t\<close>: the underlying allocator is asked
  for 8 bytes, and the header does not fit what it returns.
\<close>

lemma dst_alloc_header_out_of_bounds:
  "dst_alloc malloc_64 DST_MEMORY_ARRAY (2 ^ 64 - 8)
     \<lparr>blocks = Map.empty, dst_vm_blocks = 0, dst_vm_memory_interval = 0,
      dst_vm_next_collection = 0, dst_vm_fiber = 0, dst_vm_cache = 4096\<rparr>
   = (\<lparr>blocks = Map.empty, dst_vm_blocks = 0, dst_vm_memory_interval = 0,
       dst_vm_next_collection = 0, dst_vm_fiber = 0, dst_vm_cache = 4096\<rparr>,
      Inl HeaderOutOfBounds)"
  by (simp add: dst_alloc_def Let_def sizeof_DstGCMemoryHeader_def malloc_64_def)

text \<open>An allocation succeeds when the runtime is initialised, the size and the header fit
  \<open>size_t\<close>, and the underlying allocator returns memory.\<close>

lemma dst_alloc_returns:
  assumes "dst_vm_cache st \<noteq> 0" and "sz + sizeof_DstGCMemoryHeader < 2 ^ 64"
    and "malloc (sz + sizeof_DstGCMemoryHeader) \<noteq> 0"
  shows "\<exists>st'. dst_alloc malloc type sz st
           = (st', Inr (malloc (sz + sizeof_DstGCMemoryHeader) + sizeof_DstGCMemoryHeader))"
  using assms by (simp add: dst_alloc_def Let_def sizeof_DstGCMemoryHeader_def)

section \<open>The global list\<close>

lemma list_path_Cons:
  "list_path h a (x # xs) \<longleftrightarrow> a = x \<and> a \<noteq> 0 \<and> (\<exists>b. h a = Some b \<and> list_path h (nxt b) xs)"
  by (auto simp add: block_at_def split: option.splits)

declare list_path.simps(2) [simp del]



lemma list_path_unique: "list_path h a xs \<Longrightarrow> list_path h a ys \<Longrightarrow> xs = ys"
proof (induction xs arbitrary: a ys)
  case Nil
  then show ?case by (cases ys) (auto simp add: list_path_Cons)
next
  case (Cons x xs)
  then show ?case by (cases ys) (auto simp add: list_path_Cons)
qed

lemma list_path_suffix: "list_path h a (xs @ y # ys) \<Longrightarrow> list_path h y (y # ys)"
  by (induction xs arbitrary: a) (auto simp add: list_path_Cons)


lemma list_path_head_notin: "list_path h a (x # xs) \<Longrightarrow> x \<notin> set xs"
proof
  assume p: "list_path h a (x # xs)" and "x \<in> set xs"
  then obtain ys zs where xs: "xs = ys @ x # zs" by (auto simp add: in_set_conv_decomp)
  from p have ax: "a = x" by (simp add: list_path_Cons)
  from p xs have "list_path h a ((x # ys) @ x # zs)" by simp
  then have "list_path h x (x # zs)" by (rule list_path_suffix)
  with p ax have "x # xs = x # zs" by (auto dest: list_path_unique)
  with xs show False by simp
qed

lemma list_path_distinct: "list_path h a xs \<Longrightarrow> distinct xs"
proof (induction xs arbitrary: a)
  case Nil
  then show ?case by simp
next
  case (Cons x xs)
  from Cons.prems have "x \<notin> set xs" by (rule list_path_head_notin)
  moreover from Cons.prems obtain b :: block where "list_path h (nxt b) xs" by (auto simp add: list_path_Cons)
  then have "distinct xs" by (rule Cons.IH)
  ultimately show ?case by simp
qed

section \<open>One unfolding of a mark call\<close>

lemma run_seq_single [simp]:
  "run_seq n [c] h = run n c h"
  by (cases "run n c h") simp_all

lemma run_seq_append:
  "run_seq n (cs @ ds) h =
     (case run_seq n cs h of Done h' \<Rightarrow> run_seq n ds h' | Fault \<Rightarrow> Fault | OutOfFuel \<Rightarrow> OutOfFuel)"
  by (induction cs arbitrary: h) (simp_all split: result.splits)

lemma run_expand_return: "expand h c = AReturn h' \<Longrightarrow> run (Suc n) c h = Done h'"
  by (cases c)
     (auto simp add: expand_def descend_def enter_def leaf_def children_def
        split: DstType.splits nat.splits list.splits option.splits bool.splits result.splits
          if_splits)

lemma run_expand_calls: "expand h c = ACalls h1 cs \<Longrightarrow> run (Suc n) c h = run_seq n cs h1"
  by (cases c)
     (auto simp add: expand_def descend_def enter_def leaf_def children_def Let_def
        split: DstType.splits nat.splits list.splits option.splits bool.splits result.splits
          if_splits)


section \<open>Marking only sets reachable bits\<close>

declare run.simps(2) [simp del]

lemma mark_ext_refl: "mark_ext h h"
  by (simp add: mark_ext_def split: option.splits)

lemma mark_ext_trans:
  assumes "mark_ext h1 h2" and "mark_ext h2 h3"
  shows "mark_ext h1 h3"
  unfolding mark_ext_def
proof
  fix a
  from assms have a12: "case block_at h1 a of None \<Rightarrow> block_at h2 a = None
      | Some b \<Rightarrow> block_at h2 a = Some b
               \<or> block_at h2 a = Some (b\<lparr>flags := flags b OR DST_MEM_REACHABLE\<rparr>)"
    and a23: "case block_at h2 a of None \<Rightarrow> block_at h3 a = None
      | Some b \<Rightarrow> block_at h3 a = Some b
               \<or> block_at h3 a = Some (b\<lparr>flags := flags b OR DST_MEM_REACHABLE\<rparr>)"
    by (simp_all add: mark_ext_def)
  show "case block_at h1 a of None \<Rightarrow> block_at h3 a = None
      | Some b \<Rightarrow> block_at h3 a = Some b
               \<or> block_at h3 a = Some (b\<lparr>flags := flags b OR DST_MEM_REACHABLE\<rparr>)"
  proof (cases "block_at h1 a")
    case None
    with a12 a23 show ?thesis by simp
  next
    case (Some b)
    with a12 a23 show ?thesis by (auto simp add: or.assoc)
  qed
qed

lemma mark_ext_gc_mark: "dst_gc_mark h m = Some h1 \<Longrightarrow> mark_ext h h1"
  by (auto simp add: dst_gc_mark_def mark_ext_def block_at_def split: option.splits if_splits)

lemma mark_ext_SomeD:
  "mark_ext h h' \<Longrightarrow> block_at h a = Some b \<Longrightarrow>
   \<exists>b'. block_at h' a = Some b' \<and> nxt b' = nxt b \<and> body b' = body b
     \<and> (flags b' = flags b \<or> flags b' = flags b OR DST_MEM_REACHABLE)"
  unfolding mark_ext_def by (drule spec [of _ a]) auto

lemma mark_ext_NoneD: "mark_ext h h' \<Longrightarrow> block_at h a = None \<Longrightarrow> block_at h' a = None"
  unfolding mark_ext_def by (drule spec [of _ a]) auto

lemma mark_ext_SomeD':
  "mark_ext h h' \<Longrightarrow> block_at h' a = Some b' \<Longrightarrow>
   \<exists>b. block_at h a = Some b \<and> nxt b' = nxt b \<and> body b' = body b
     \<and> (flags b' = flags b \<or> flags b' = flags b OR DST_MEM_REACHABLE)"
  by (cases "block_at h a") (auto dest: mark_ext_NoneD mark_ext_SomeD)

lemma mark_ext_body_at: "mark_ext h h' \<Longrightarrow> body_at h' = body_at h"
proof (rule ext)
  fix m assume e: "mark_ext h h'"
  show "body_at h' m = body_at h m"
  proof (cases "block_at h (dst_gc_header m)")
    case None
    with e show ?thesis by (simp add: body_at_def mark_ext_NoneD)
  next
    case (Some b)
    with e show ?thesis by (auto simp add: body_at_def dest!: mark_ext_SomeD)
  qed
qed

lemma mark_ext_readers:
  assumes "mark_ext h h'"
  shows "array_at h' = array_at h" "table_at h' = table_at h" "struct_at h' = struct_at h"
    "tuple_at h' = tuple_at h" "funcenv_at h' = funcenv_at h" "funcdef_at h' = funcdef_at h"
    "function_at h' = function_at h" "fiber_at h' = fiber_at h"
  using mark_ext_body_at [OF assms]
  by (simp_all add: fun_eq_iff array_at_def table_at_def struct_at_def tuple_at_def
      funcenv_at_def funcdef_at_def function_at_def fiber_at_def)

lemma mark_ext_children:
  assumes "mark_ext h h'"
  shows "children h' = children h"
proof (rule ext)
  fix bd show "children h' bd = children h bd"
    by (cases bd) (simp_all add: children_def mark_ext_readers [OF assms])
qed

lemma mark_ext_refs:
  assumes "mark_ext h h'"
  shows "refs h' = refs h"
proof (rule ext)
  fix bd show "refs h' bd = refs h bd"
    by (cases bd) (simp_all add: refs_def mark_ext_readers [OF assms])
qed

lemma mark_ext_wf_value:
  assumes "mark_ext h h'"
  shows "wf_value h' = wf_value h"
proof (rule ext)
  fix x show "wf_value h' x = wf_value h x"
    by (cases "vtype x")
       (simp_all add: wf_value_def mark_ext_readers [OF assms] mark_ext_body_at [OF assms])
qed

lemma mark_ext_wf_frames: "mark_ext h h' \<Longrightarrow> wf_frames h' = wf_frames h"
proof -
  assume e: "mark_ext h h'"
  have "wf_frames h f i j \<Longrightarrow> wf_frames h' f i j" for f i j
    by (induction rule: wf_frames.induct)
       (auto intro: wf_frames.intros simp add: mark_ext_readers [OF e] mark_ext_wf_value [OF e])
  moreover have "wf_frames h' f i j \<Longrightarrow> wf_frames h f i j" for f i j
    by (induction rule: wf_frames.induct)
       (auto intro: wf_frames.intros simp add: mark_ext_readers [OF e] mark_ext_wf_value [OF e])
  ultimately show ?thesis by (auto simp add: fun_eq_iff)
qed

lemma mark_ext_wf_call:
  assumes "mark_ext h h'"
  shows "wf_call h' = wf_call h"
proof (rule ext)
  fix c show "wf_call h' c = wf_call h c"
    by (cases c)
       (simp_all add: wf_call_def mark_ext_readers [OF assms] mark_ext_wf_value [OF assms]
          mark_ext_wf_frames [OF assms] split: option.splits)
qed

lemma mark_ext_dom: "mark_ext h h' \<Longrightarrow> dom h' \<subseteq> insert 0 (dom h)"
proof
  fix a assume e: "mark_ext h h'" and "a \<in> dom h'"
  then obtain b where "h' a = Some b" by auto
  show "a \<in> insert 0 (dom h)"
  proof (cases "a = 0")
    case False
    with \<open>h' a = Some b\<close> have "block_at h' a = Some b" by (simp add: block_at_def)
    with e obtain b0 where "block_at h a = Some b0" by (blast dest: mark_ext_SomeD')
    with False show ?thesis by (auto simp add: block_at_def)
  qed simp
qed

lemma mark_ext_wf_heap:
  assumes e: "mark_ext h h'" and w: "wf_heap h"
  shows "wf_heap h'"
proof -
  from w have "finite (insert 0 (dom h))" by (simp add: wf_heap_def)
  with mark_ext_dom [OF e] have "finite (dom h')" by (rule finite_subset)
  moreover have "\<forall>c\<in>set (children h' (body b')). wf_call h' c" if "block_at h' a = Some b'" for a b'
  proof -
    from mark_ext_SomeD' [OF e that] obtain b where "block_at h a = Some b" "body b' = body b"
      by blast
    with w show ?thesis
      by (simp add: wf_heap_def mark_ext_children [OF e] mark_ext_wf_call [OF e])
  qed
  ultimately show ?thesis by (simp add: wf_heap_def)
qed

lemma mark_ext_marked: "mark_ext h h' \<Longrightarrow> marked h \<subseteq> marked h'"
proof
  fix a assume e: "mark_ext h h'" and "a \<in> marked h"
  then obtain b where b: "block_at h a = Some b" "flags b AND DST_MEM_REACHABLE \<noteq> 0"
    by (auto simp add: marked_def)
  from mark_ext_SomeD [OF e b(1)] obtain b' where "block_at h' a = Some b'"
    "flags b' = flags b \<or> flags b' = flags b OR DST_MEM_REACHABLE" by blast
  with b(2) show "a \<in> marked h'"
    by (auto simp add: marked_def test_REACHABLE bit_set_REACHABLE)
qed

lemma mark_ext_unmarked: "mark_ext h h' \<Longrightarrow> unmarked h' \<subseteq> unmarked h"
proof
  fix a assume e: "mark_ext h h'" and "a \<in> unmarked h'"
  then obtain b' where b: "block_at h' a = Some b'" "flags b' AND DST_MEM_REACHABLE = 0"
    by (auto simp add: unmarked_def)
  from mark_ext_SomeD' [OF e b(1)] obtain b where "block_at h a = Some b"
    "flags b' = flags b \<or> flags b' = flags b OR DST_MEM_REACHABLE" by blast
  with b(2) test_REACHABLE [of "flags b'"] test_REACHABLE [of "flags b"]
  show "a \<in> unmarked h"
    by (auto simp add: unmarked_def bit_set_REACHABLE)
qed

lemma finite_unmarked: "finite (dom h) \<Longrightarrow> finite (unmarked h)"
  by (rule finite_subset [of _ "dom h"]) (auto simp add: unmarked_def block_at_def split: if_splits)

lemma mark_ext_card:
  "mark_ext h h' \<Longrightarrow> finite (dom h) \<Longrightarrow> card (unmarked h') \<le> card (unmarked h)"
  by (intro card_mono finite_unmarked mark_ext_unmarked)





section \<open>Closed sets of marks\<close>

lemma marks_closed_same: "T \<subseteq> marked h \<Longrightarrow> marks_closed T h h"
  by (simp add: marks_closed_def mark_ext_refl)

lemma marks_closed_weaken: "marks_closed T h h' \<Longrightarrow> T' \<subseteq> T \<Longrightarrow> marks_closed T' h h'"
  by (auto simp add: marks_closed_def)

lemma marks_closed_trans:
  assumes c1: "marks_closed T1 h1 h2" and c2: "marks_closed T2 h2 h3"
  shows "marks_closed (T1 \<union> T2) h1 h3"
proof -
  from c1 have e12: "mark_ext h1 h2" and t1: "T1 \<subseteq> marked h2"
    and k1: "\<And>a b. block_at h1 a = Some b \<Longrightarrow> a \<in> marked h2 \<Longrightarrow> a \<notin> marked h1
            \<Longrightarrow> refs h1 (body b) \<subseteq> marked h2"
    by (auto simp add: marks_closed_def)
  from c2 have e23: "mark_ext h2 h3" and t2: "T2 \<subseteq> marked h3"
    and k2: "\<And>a b. block_at h2 a = Some b \<Longrightarrow> a \<in> marked h3 \<Longrightarrow> a \<notin> marked h2
            \<Longrightarrow> refs h2 (body b) \<subseteq> marked h3"
    by (auto simp add: marks_closed_def)
  note m23 = mark_ext_marked [OF e23]
  have "refs h1 (body b) \<subseteq> marked h3"
    if b: "block_at h1 a = Some b" and a3: "a \<in> marked h3" and a1: "a \<notin> marked h1" for a b
  proof (cases "a \<in> marked h2")
    case True
    from k1 [OF b True a1] m23 show ?thesis by blast
  next
    case False
    from mark_ext_SomeD [OF e12 b] obtain b2 where b2: "block_at h2 a = Some b2"
      "body b2 = body b" by blast
    from k2 [OF b2(1) a3 False] b2(2) show ?thesis by (simp add: mark_ext_refs [OF e12])
  qed
  with e12 e23 t1 t2 m23 show ?thesis
    by (auto simp add: marks_closed_def intro: mark_ext_trans)
qed

lemma gc_mark_SomeD:
  "dst_gc_mark h m = Some h1 \<Longrightarrow>
   \<exists>b. block_at h (dst_gc_header m) = Some b \<and> dst_gc_header m \<noteq> 0
      \<and> h1 = h(dst_gc_header m \<mapsto> b\<lparr>flags := flags b OR DST_MEM_REACHABLE\<rparr>)"
  by (auto simp add: dst_gc_mark_def block_at_def split: option.splits if_splits)

lemma gc_mark_marked: "dst_gc_mark h m = Some h1 \<Longrightarrow> dst_gc_header m \<in> marked h1"
  by (auto dest!: gc_mark_SomeD simp add: marked_def block_at_def test_REACHABLE
      bit_set_REACHABLE)

lemma gc_mark_other:
  "dst_gc_mark h m = Some h1 \<Longrightarrow> x \<noteq> dst_gc_header m \<Longrightarrow> block_at h1 x = block_at h x"
  by (auto dest!: gc_mark_SomeD simp add: block_at_def)

lemma set_REACHABLE_nonzero: "(f OR DST_MEM_REACHABLE) AND DST_MEM_REACHABLE \<noteq> 0"
  unfolding test_REACHABLE bit_set_REACHABLE by simp

lemma gc_mark_unmarked:
  assumes "dst_gc_mark h m = Some h1"
  shows "unmarked h1 = unmarked h - {dst_gc_header m}"
proof -
  from gc_mark_SomeD [OF assms] obtain b where b: "block_at h (dst_gc_header m) = Some b"
    "dst_gc_header m \<noteq> 0"
    and h1: "h1 = h(dst_gc_header m \<mapsto> b\<lparr>flags := flags b OR DST_MEM_REACHABLE\<rparr>)" by blast
  have "x \<in> unmarked h1 \<longleftrightarrow> x \<in> unmarked h \<and> x \<noteq> dst_gc_header m" for x
    using b set_REACHABLE_nonzero [of "flags b"]
    by (auto simp add: h1 unmarked_def block_at_def simp del: word_ao_absorbs)
  then show ?thesis by blast
qed

lemma gc_mark_card:
  assumes g: "dst_gc_mark h m = Some h1" and u: "dst_gc_header m \<in> unmarked h"
    and f: "finite (dom h)"
  shows "card (unmarked h1) < card (unmarked h)"
proof -
  from f have "finite (unmarked h)" by (rule finite_unmarked)
  then show ?thesis unfolding gc_mark_unmarked [OF g] using u by (rule card_Diff1_less)
qed

lemma marks_closed_mark:
  assumes g: "dst_gc_mark h m = Some h1" and b: "block_at h (dst_gc_header m) = Some b"
    and c: "marks_closed T h1 h'" and r: "refs h (body b) \<subseteq> T"
  shows "marks_closed {dst_gc_header m} h h'"
proof -
  note e1 = mark_ext_gc_mark [OF g]
  from c have e2: "mark_ext h1 h'" and t: "T \<subseteq> marked h'"
    and k: "\<And>a b. block_at h1 a = Some b \<Longrightarrow> a \<in> marked h' \<Longrightarrow> a \<notin> marked h1
            \<Longrightarrow> refs h1 (body b) \<subseteq> marked h'"
    by (auto simp add: marks_closed_def)
  from gc_mark_marked [OF g] mark_ext_marked [OF e2] have m: "dst_gc_header m \<in> marked h'"
    by blast
  have "refs h (body bx) \<subseteq> marked h'"
    if bx: "block_at h x = Some bx" and x': "x \<in> marked h'" and x0: "x \<notin> marked h" for x bx
  proof (cases "x = dst_gc_header m")
    case True
    with bx b r t show ?thesis by auto
  next
    case False
    from gc_mark_other [OF g False] bx have b1: "block_at h1 x = Some bx" by simp
    with x0 bx have "x \<notin> marked h1" by (auto simp add: marked_def)
    from k [OF b1 x' this] show ?thesis by (simp add: mark_ext_refs [OF e1])
  qed
  with e1 e2 m show ?thesis by (auto simp add: marks_closed_def intro: mark_ext_trans)
qed

lemma refs_children: "refs h bd = \<Union>(targets ` set (children h bd))"
  by (cases bd)
     (auto simp add: refs_def children_def targets_def value_blocks_def split: option.splits)

section \<open>Unfolding a well-formed call\<close>

lemma body_at_SomeD:
  "body_at h m = Some bd \<Longrightarrow> \<exists>b. block_at h (dst_gc_header m) = Some b \<and> body b = bd"
  by (auto simp add: body_at_def)

lemma reader_SomeD:
  "array_at h m = Some a \<Longrightarrow> body_at h m = Some (BArray a)"
  "table_at h m = Some t \<Longrightarrow> body_at h m = Some (BTable t)"
  "struct_at h m = Some s \<Longrightarrow> body_at h m = Some (BStruct s)"
  "tuple_at h m = Some tu \<Longrightarrow> body_at h m = Some (BTuple tu)"
  "funcenv_at h m = Some e \<Longrightarrow> body_at h m = Some (BFuncEnv e)"
  "funcdef_at h m = Some d \<Longrightarrow> body_at h m = Some (BFuncDef d)"
  "function_at h m = Some g \<Longrightarrow> body_at h m = Some (BFunction g)"
  "fiber_at h m = Some fi \<Longrightarrow> body_at h m = Some (BFiber fi)"
  by (auto simp add: array_at_def table_at_def struct_at_def tuple_at_def funcenv_at_def
      funcdef_at_def function_at_def fiber_at_def split: option.splits body.splits)

lemma descend_eval:
  assumes b: "block_at h (dst_gc_header m) = Some b"
    and rd: "\<And>h1. mark_ext h h1 \<Longrightarrow> rd h1 = Some (body b)"
  shows "if flags b AND DST_MEM_REACHABLE \<noteq> 0 then descend h m rd = AReturn h
         else \<exists>h1. dst_gc_mark h m = Some h1 \<and> descend h m rd = ACalls h1 (children h (body b))"
proof (cases "flags b AND DST_MEM_REACHABLE \<noteq> 0")
  case True
  with b show ?thesis by (simp add: descend_def enter_def dst_gc_reachable_def)
next
  case False
  from b obtain h1 where g: "dst_gc_mark h m = Some h1" by (simp add: dst_gc_mark_def)
  note e = mark_ext_gc_mark [OF g]
  from False b g rd [OF e] show ?thesis
    by (simp add: descend_def enter_def dst_gc_reachable_def mark_ext_children [OF e])
qed

lemma wf_function_def:
  assumes w: "wf_heap h" and g: "function_at h m = Some g"
  shows "funcdef_at h (fn_def g) \<noteq> None"
proof -
  from body_at_SomeD [OF reader_SomeD(7) [OF g]] obtain b
    where b: "block_at h (dst_gc_header m) = Some b" "body b = BFunction g" by blast
  with w have "\<forall>c\<in>set (children h (BFunction g)). wf_call h c"
    by (auto simp add: wf_heap_def)
  then have "wf_call h (Mark_funcdef (fn_def g))" by (simp add: children_def)
  then show ?thesis by (simp add: wf_call_def)
qed

lemma expand_per_kind:
  assumes cb: "call_block c = Some m" and w: "wf_call h c"
  shows "\<exists>b. block_at h (dst_gc_header m) = Some b \<and> targets c = {dst_gc_header m} \<and> rank c = 0
        \<and> (if flags b AND DST_MEM_REACHABLE \<noteq> 0 then expand h c = AReturn h
           else \<exists>h1. dst_gc_mark h m = Some h1
                  \<and> expand h c = ACalls h1 (children h (body b)))"
proof -
  have gen: ?thesis
    if bd: "body_at h m = Some bd" and t: "targets c = {dst_gc_header m}" and r: "rank c = 0"
      and x: "\<And>rd'. (\<And>h1. mark_ext h h1 \<Longrightarrow> rd' h1 = Some bd) \<Longrightarrow>
                   \<exists>rd. expand h c = descend h m rd \<and> (\<forall>h1. mark_ext h h1 \<longrightarrow> rd h1 = Some bd)"
    for bd
  proof -
    from body_at_SomeD [OF bd] obtain b where b: "block_at h (dst_gc_header m) = Some b"
      "body b = bd" by blast
    from x [of "\<lambda>_. Some bd"] obtain rd where rd: "expand h c = descend h m rd"
      "\<And>h1. mark_ext h h1 \<Longrightarrow> rd h1 = Some (body b)" using b by auto
    from descend_eval [OF b(1) rd(2)] rd(1) b t r show ?thesis by auto
  qed
  show ?thesis
  proof (cases c)
    case (Mark_array p)
    with cb w obtain a where "m = p" "array_at h p = Some a"
      by (auto simp add: call_block_def wf_call_def)
    with Mark_array show ?thesis
      by (intro gen [of "BArray a"])
         (auto simp add: reader_SomeD targets_def rank_def expand_def mark_ext_readers)
  next
    case (Mark_table p)
    with cb w obtain a where "m = p" "table_at h p = Some a"
      by (auto simp add: call_block_def wf_call_def)
    with Mark_table show ?thesis
      by (intro gen [of "BTable a"])
         (auto simp add: reader_SomeD targets_def rank_def expand_def mark_ext_readers)
  next
    case (Mark_struct p)
    with cb w obtain a where "m = dst_struct_raw p" "struct_at h (dst_struct_raw p) = Some a"
      by (auto simp add: call_block_def wf_call_def)
    with Mark_struct show ?thesis
      by (intro gen [of "BStruct a"])
         (auto simp add: reader_SomeD targets_def rank_def expand_def mark_ext_readers)
  next
    case (Mark_tuple p)
    with cb w obtain a where "m = dst_tuple_raw p" "tuple_at h (dst_tuple_raw p) = Some a"
      by (auto simp add: call_block_def wf_call_def)
    with Mark_tuple show ?thesis
      by (intro gen [of "BTuple a"])
         (auto simp add: reader_SomeD targets_def rank_def expand_def mark_ext_readers)
  next
    case (Mark_funcenv p)
    with cb w obtain a where "m = p" "funcenv_at h p = Some a"
      by (auto simp add: call_block_def wf_call_def)
    with Mark_funcenv show ?thesis
      by (intro gen [of "BFuncEnv a"])
         (auto simp add: reader_SomeD targets_def rank_def expand_def mark_ext_readers)
  next
    case (Mark_funcdef p)
    with cb w obtain a where "m = p" "funcdef_at h p = Some a"
      by (auto simp add: call_block_def wf_call_def)
    with Mark_funcdef show ?thesis
      by (intro gen [of "BFuncDef a"])
         (auto simp add: reader_SomeD targets_def rank_def expand_def mark_ext_readers)
  next
    case (Mark_function p)
    with cb w obtain a where "m = p" "function_at h p = Some a" "funcdef_at h (fn_def a) \<noteq> None"
      by (auto simp add: call_block_def wf_call_def split: option.splits)
    with Mark_function show ?thesis
      by (intro gen [of "BFunction a"])
         (auto simp add: reader_SomeD targets_def rank_def expand_def mark_ext_readers)
  next
    case (Mark_fiber p)
    with cb w obtain a where "m = p" "fiber_at h p = Some a"
      by (auto simp add: call_block_def wf_call_def)
    with Mark_fiber show ?thesis
      by (intro gen [of "BFiber a"])
         (auto simp add: reader_SomeD targets_def rank_def expand_def mark_ext_readers)
  qed (use cb in \<open>simp_all add: call_block_def\<close>)
qed

lemma step_okI:
  assumes "\<And>ci. ci \<in> set cs \<Longrightarrow> wf_call h ci" and "\<And>ci. ci \<in> set cs \<Longrightarrow> rank ci < rank c"
    and "targets c \<subseteq> \<Union>(targets ` set cs)"
  shows "step_ok h c h cs"
  using assms by (auto simp add: step_ok_def mark_ext_refl intro: marks_closed_weaken)

lemma expand_wf_per_kind:
  assumes cb: "call_block c = Some m" and wh: "wf_heap h" and w: "wf_call h c"
  shows "(\<exists>h'. expand h c = AReturn h' \<and> marks_closed (targets c) h h')
       \<or> (\<exists>h1 cs. expand h c = ACalls h1 cs \<and> step_ok h c h1 cs)"
proof -
  from expand_per_kind [OF cb w] obtain b where b: "block_at h (dst_gc_header m) = Some b"
    and t: "targets c = {dst_gc_header m}"
    and x: "if flags b AND DST_MEM_REACHABLE \<noteq> 0 then expand h c = AReturn h
           else \<exists>h1. dst_gc_mark h m = Some h1
                  \<and> expand h c = ACalls h1 (children h (body b))"
    by blast
  show ?thesis
  proof (cases "flags b AND DST_MEM_REACHABLE \<noteq> 0")
    case True
    with b have "dst_gc_header m \<in> marked h" by (auto simp add: marked_def)
    with t have "marks_closed (targets c) h h" by (simp add: marks_closed_same)
    with x True show ?thesis by auto
  next
    case False
    with x obtain h1 where g: "dst_gc_mark h m = Some h1"
      and e: "expand h c = ACalls h1 (children h (body b))" by auto
    note me = mark_ext_gc_mark [OF g]
    from wh b have "\<forall>ci\<in>set (children h (body b)). wf_call h ci" by (auto simp add: wf_heap_def)
    then have w1: "\<forall>ci\<in>set (children h (body b)). wf_call h1 ci"
      by (simp add: mark_ext_wf_call [OF me])
    from False b have "dst_gc_header m \<in> unmarked h" by (auto simp add: unmarked_def)
    moreover from wh have "finite (dom h)" by (simp add: wf_heap_def)
    ultimately have cd: "card (unmarked h1) < card (unmarked h)" by (rule gc_mark_card [OF g])
    have cl: "marks_closed (targets c) h h'"
      if "marks_closed (\<Union>(targets ` set (children h (body b)))) h1 h'" for h'
      unfolding t using g b that by (rule marks_closed_mark) (simp add: refs_children)
    from w1 me cd cl have "step_ok h c h1 (children h (body b))" by (simp add: step_ok_def)
    with e show ?thesis by blast
  qed
qed

lemma leaf_mark:
  assumes bd: "body_at h m = Some bd" and r: "refs h bd = {}"
  shows "\<exists>h1. dst_gc_mark h m = Some h1 \<and> marks_closed {dst_gc_header m} h h1"
proof -
  from body_at_SomeD [OF bd] obtain b where b: "block_at h (dst_gc_header m) = Some b"
    "body b = bd" by blast
  then obtain h1 where g: "dst_gc_mark h m = Some h1" by (simp add: dst_gc_mark_def)
  have "marks_closed {} h1 h1" by (simp add: marks_closed_same)
  with g b(1) have "marks_closed {dst_gc_header m} h h1"
    by (rule marks_closed_mark) (simp add: b r)
  with g show ?thesis by blast
qed

lemma value_blocks_Cons:
  "value_blocks (v # vs) = set_option (value_block v) \<union> value_blocks vs"
  by (auto simp add: value_blocks_def)

lemma value_blocks_Nil [simp]: "value_blocks [] = {}"
  by (simp add: value_blocks_def)

lemma constant_blocks_Cons:
  "constant_blocks (v # vs) = set_option (constant_block v) \<union> constant_blocks vs"
  by (auto simp add: constant_blocks_def)

lemma constant_blocks_Nil [simp]: "constant_blocks [] = {}"
  by (simp add: constant_blocks_def)

lemma env_blocks_Cons:
  "env_blocks (e # es) = (if e \<noteq> 0 then {dst_gc_header e} else {}) \<union> env_blocks es"
  by (auto simp add: env_blocks_def)

lemma env_blocks_Nil [simp]: "env_blocks [] = {}"
  by (simp add: env_blocks_def)

lemma expand_wf_Mark:
  assumes wh: "wf_heap h" and w: "wf_call h (Mark x)"
  shows "(\<exists>h'. expand h (Mark x) = AReturn h' \<and> marks_closed (targets (Mark x)) h h')
       \<or> (\<exists>h1 cs. expand h (Mark x) = ACalls h1 cs \<and> step_ok h (Mark x) h1 cs)"
proof -
  from w have wv: "wf_value h x" by (simp add: wf_call_def)
  have leafc: ?thesis
    if "body_at h m = Some bd" "refs h bd = {}" "targets (Mark x) = {dst_gc_header m}"
      "\<And>h1. dst_gc_mark h m = Some h1 \<Longrightarrow> expand h (Mark x) = AReturn h1" for m bd
    using leaf_mark [OF that(1,2)] that(3,4) by auto
  have kindc: ?thesis
    if "expand h (Mark x) = ACalls h [c]" "wf_call h c" "rank c = 0" "targets c = targets (Mark x)"
    for c
  proof -
    from that have "step_ok h (Mark x) h [c]" by (intro step_okI) (simp_all add: rank_def)
    with that(1) show ?thesis by blast
  qed
  have nonec: ?thesis if "expand h (Mark x) = AReturn h" "targets (Mark x) = {}"
    using that by (simp add: marks_closed_same)
  show ?thesis
  proof (cases "vtype x")
    case DST_STRING
    with wv show ?thesis
      by (intro leafc [of "dst_string_raw (as_pointer x)" BString])
         (simp_all add: wf_value_def refs_def targets_def value_blocks_Cons value_block_def
            expand_def leaf_def dst_mark_string_def)
  next
    case DST_SYMBOL
    with wv show ?thesis
      by (intro leafc [of "dst_string_raw (as_pointer x)" BString])
         (simp_all add: wf_value_def refs_def targets_def value_blocks_Cons value_block_def
            expand_def leaf_def dst_mark_string_def)
  next
    case DST_BUFFER
    with wv obtain bf where "body_at h (as_pointer x) = Some (BBuffer bf)"
      by (auto simp add: wf_value_def split: option.splits body.splits)
    with DST_BUFFER show ?thesis
      by (intro leafc [of "as_pointer x" "BBuffer bf"])
         (simp_all add: refs_def targets_def value_blocks_Cons value_block_def
            expand_def leaf_def dst_mark_buffer_def)
  next
    case DST_USERDATA
    with wv obtain u where "body_at h (dst_userdata_header (as_pointer x)) = Some (BUserdata u)"
      by (auto simp add: wf_value_def split: option.splits body.splits)
    with DST_USERDATA show ?thesis
      by (intro leafc [of "dst_userdata_header (as_pointer x)" "BUserdata u"])
         (simp_all add: refs_def targets_def value_blocks_Cons value_block_def
            expand_def leaf_def dst_mark_udata_def)
  next
    case DST_FUNCTION
    with wv obtain g where g: "function_at h (as_pointer x) = Some g"
      by (auto simp add: wf_value_def)
    from wf_function_def [OF wh g] g DST_FUNCTION show ?thesis
      by (intro kindc [of "Mark_function (as_pointer x)"])
         (simp_all add: expand_def wf_call_def rank_def targets_def value_blocks_Cons
            value_block_def)
  next
    case DST_ARRAY
    with wv show ?thesis
      by (intro kindc [of "Mark_array (as_pointer x)"])
         (simp_all add: wf_value_def expand_def wf_call_def rank_def targets_def
            value_blocks_Cons value_block_def)
  next
    case DST_TABLE
    with wv show ?thesis
      by (intro kindc [of "Mark_table (as_pointer x)"])
         (simp_all add: wf_value_def expand_def wf_call_def rank_def targets_def
            value_blocks_Cons value_block_def)
  next
    case DST_STRUCT
    with wv show ?thesis
      by (intro kindc [of "Mark_struct (as_pointer x)"])
         (simp_all add: wf_value_def expand_def wf_call_def rank_def targets_def
            value_blocks_Cons value_block_def)
  next
    case DST_TUPLE
    with wv show ?thesis
      by (intro kindc [of "Mark_tuple (as_pointer x)"])
         (simp_all add: wf_value_def expand_def wf_call_def rank_def targets_def
            value_blocks_Cons value_block_def)
  next
    case DST_FIBER
    with wv show ?thesis
      by (intro kindc [of "Mark_fiber (as_pointer x)"])
         (simp_all add: wf_value_def expand_def wf_call_def rank_def targets_def
            value_blocks_Cons value_block_def)
  qed (intro nonec; simp add: expand_def targets_def value_blocks_Cons value_block_def)+
qed

lemma expand_wf_Mark_many:
  assumes w: "wf_call h (Mark_many vs k)"
  shows "(\<exists>h'. expand h (Mark_many vs k) = AReturn h'
            \<and> marks_closed (targets (Mark_many vs k)) h h')
       \<or> (\<exists>h1 cs. expand h (Mark_many vs k) = ACalls h1 cs \<and> step_ok h (Mark_many vs k) h1 cs)"
proof (cases k)
  case 0
  then show ?thesis by (simp add: expand_def targets_def marks_closed_same)
next
  case (Suc k')
  with w obtain v vs' where vs: "vs = v # vs'" by (cases vs) (auto simp add: wf_call_def)
  from w Suc vs have "step_ok h (Mark_many vs k) h [Mark v, Mark_many vs' k']"
    by (intro step_okI)
       (auto simp add: wf_call_def rank_def targets_def value_blocks_Cons)
  with Suc vs show ?thesis by (simp add: expand_def)
qed

lemma expand_wf_Mark_constants:
  assumes w: "wf_call h (Mark_constants vs k)"
  shows "(\<exists>h'. expand h (Mark_constants vs k) = AReturn h'
            \<and> marks_closed (targets (Mark_constants vs k)) h h')
       \<or> (\<exists>h1 cs. expand h (Mark_constants vs k) = ACalls h1 cs
            \<and> step_ok h (Mark_constants vs k) h1 cs)"
proof (cases k)
  case 0
  then show ?thesis by (simp add: expand_def targets_def marks_closed_same)
next
  case (Suc k')
  with w obtain v vs' where vs: "vs = v # vs'" by (cases vs) (auto simp add: wf_call_def)
  from w Suc vs have "step_ok h (Mark_constants vs k) h
      [if vtype v = DST_BOOLEAN then Mark_funcdef (as_pointer v) else Mark v,
       Mark_constants vs' k']"
    by (intro step_okI)
       (auto simp add: wf_call_def rank_def targets_def value_blocks_Cons constant_blocks_Cons
          constant_block_def split: if_splits)
  with Suc vs show ?thesis by (simp add: expand_def)
qed

lemma expand_wf_Mark_envs:
  assumes w: "wf_call h (Mark_envs es k)"
  shows "(\<exists>h'. expand h (Mark_envs es k) = AReturn h'
            \<and> marks_closed (targets (Mark_envs es k)) h h')
       \<or> (\<exists>h1 cs. expand h (Mark_envs es k) = ACalls h1 cs \<and> step_ok h (Mark_envs es k) h1 cs)"
proof (cases k)
  case 0
  then show ?thesis by (simp add: expand_def targets_def marks_closed_same)
next
  case (Suc k')
  with w obtain e es' where es: "es = e # es'" by (cases es) (auto simp add: wf_call_def)
  from w Suc es have "step_ok h (Mark_envs es k) h
      ((if e \<noteq> 0 then [Mark_funcenv e] else []) @ [Mark_envs es' k'])"
    by (intro step_okI)
       (auto simp add: wf_call_def rank_def targets_def env_blocks_Cons split: if_splits)
  with Suc es show ?thesis by (simp add: expand_def)
qed

lemma read_values_length: "read_values ss k = Some vs \<Longrightarrow> length vs = k"
proof (induction ss k arbitrary: vs rule: read_values.induct)
qed auto

lemma expand_wf_Mark_frames:
  assumes w: "wf_call h (Mark_frames f i j)"
  shows "(\<exists>h'. expand h (Mark_frames f i j) = AReturn h'
            \<and> marks_closed (targets (Mark_frames f i j)) h h')
       \<or> (\<exists>h1 cs. expand h (Mark_frames f i j) = ACalls h1 cs
            \<and> step_ok h (Mark_frames f i j) h1 cs)"
proof (cases "i = 0")
  case True
  have nf: "\<not> frame_ref f 0 j a" for a by (auto elim: frame_ref.cases)
  have "targets (Mark_frames f 0 j) \<subseteq> marked h"
  proof
    fix a assume "a \<in> targets (Mark_frames f 0 j)"
    then have "frame_ref f 0 j a" by (simp add: targets_def)
    with nf show "a \<in> marked h" by simp
  qed
  then have mc: "marks_closed (targets (Mark_frames f 0 j)) h h" by (rule marks_closed_same)
  have ex: "expand h (Mark_frames f 0 j) = AReturn h" by (simp add: expand_def)
  show ?thesis unfolding True by (intro disjI1 exI [of _ h] conjI ex mc)
next
  case False
  from w have "wf_frames h f i j" by (simp add: wf_call_def)
  then obtain fr vs where fr: "read_frame f i = Some fr" and pf: "prevframe fr < i"
    and fn0: "func fr \<noteq> 0 \<longrightarrow> (function_at h (func fr) \<noteq> None
           \<and> (case function_at h (func fr) of None \<Rightarrow> False
               | Some g \<Rightarrow> funcdef_at h (fn_def g) \<noteq> None))"
    and rv: "read_values (drop i (fiber_data_mem f)) (u32_sub j i) = Some vs"
    and wv: "\<forall>v\<in>set vs. wf_value h v" and lt: "u32_sub j i < 2 ^ 32"
    and nx: "wf_frames h f (prevframe fr) (u32_sub i DST_FRAME_SIZE)"
    using False by (cases rule: wf_frames.cases) auto
  from fn0 have fn: "func fr \<noteq> 0 \<longrightarrow> wf_call h (Mark_function (func fr))"
    by (simp add: wf_call_def)
  let ?cs = "(if func fr \<noteq> 0 then [Mark_function (func fr)] else [])
       @ [Mark_many vs (u32_sub j i), Mark_frames f (prevframe fr) (u32_sub i DST_FRAME_SIZE)]"
  note len = read_values_length [OF rv]
  have tg: "targets (Mark_frames f i j) \<subseteq> \<Union>(targets ` set ?cs)"
  proof
    fix a assume "a \<in> targets (Mark_frames f i j)"
    then have "frame_ref f i j a" by (simp add: targets_def)
    then show "a \<in> \<Union>(targets ` set ?cs)"
      using fr rv len by (cases rule: frame_ref.cases) (auto simp add: targets_def)
  qed
  have "step_ok h (Mark_frames f i j) h ?cs"
    using fn wv nx pf lt len
    by (intro step_okI tg) (auto simp add: wf_call_def rank_def split: if_splits)
  with False fr rv show ?thesis by (simp add: expand_def)
qed

lemma expand_wf:
  assumes wh: "wf_heap h" and w: "wf_call h c"
  shows "(\<exists>h'. expand h c = AReturn h' \<and> marks_closed (targets c) h h')
       \<or> (\<exists>h1 cs. expand h c = ACalls h1 cs \<and> step_ok h c h1 cs)"
proof (cases "call_block c")
  case (Some m)
  from expand_wf_per_kind [OF Some wh w] show ?thesis .
next
  case None
  then show ?thesis
    using wh w
    by (cases c)
       (simp_all add: call_block_def expand_wf_Mark expand_wf_Mark_many expand_wf_Mark_constants
          expand_wf_Mark_envs expand_wf_Mark_frames)
qed

section \<open>Every well-formed mark call returns\<close>

lemma marks_closed_ext: "marks_closed T h h' \<Longrightarrow> mark_ext h h'"
  by (simp add: marks_closed_def)

lemma returns_seq_total:
  assumes "\<And>c h2. c \<in> set cs \<Longrightarrow> mark_ext h1 h2
             \<Longrightarrow> \<exists>h'. returns c h2 h' \<and> marks_closed (targets c) h2 h'"
  shows "\<exists>h'. returns_seq cs h1 h' \<and> marks_closed (\<Union>(targets ` set cs)) h1 h'"
  using assms
proof (induction cs arbitrary: h1)
  case Nil
  have "returns_seq [] h1 h1" by (simp add: returns_seq_def)
  moreover have "marks_closed (\<Union>(targets ` set [])) h1 h1" by (simp add: marks_closed_same)
  ultimately show ?case by blast
next
  case (Cons c cs)
  from Cons.prems [of c h1] obtain h2 where r1: "returns c h1 h2"
    and c1: "marks_closed (targets c) h1 h2" by (auto simp add: mark_ext_refl)
  note e12 = marks_closed_ext [OF c1]
  have "\<exists>h'. returns_seq cs h2 h' \<and> marks_closed (\<Union>(targets ` set cs)) h2 h'"
  proof (rule Cons.IH)
    fix c' h3 assume "c' \<in> set cs" and "mark_ext h2 h3"
    with e12 show "\<exists>h'. returns c' h3 h' \<and> marks_closed (targets c') h3 h'"
      by (intro Cons.prems) (auto intro: mark_ext_trans)
  qed
  then obtain h3 where r2: "returns_seq cs h2 h3"
    and c2: "marks_closed (\<Union>(targets ` set cs)) h2 h3" by blast
  from r1 obtain N1 where n1: "\<And>n. N1 \<le> n \<Longrightarrow> run n c h1 = Done h2"
    by (auto simp add: returns_def)
  from r2 obtain N2 where n2: "\<And>n. N2 \<le> n \<Longrightarrow> run_seq n cs h2 = Done h3"
    by (auto simp add: returns_seq_def)
  have "run_seq n (c # cs) h1 = Done h3" if "max N1 N2 \<le> n" for n
    using that n1 [of n] n2 [of n] by simp
  then have "returns_seq (c # cs) h1 h3" unfolding returns_seq_def by blast
  moreover from marks_closed_trans [OF c1 c2]
  have "marks_closed (\<Union>(targets ` set (c # cs))) h1 h3" by simp
  ultimately show ?case by blast
qed

lemma wf_heap_finite: "wf_heap h \<Longrightarrow> finite (dom h)"
  by (simp add: wf_heap_def)

lemma run_total_aux:
  fixes x :: "heap \<times> call"
  shows "wf_heap (fst x) \<longrightarrow> wf_call (fst x) (snd x) \<longrightarrow>
   (\<exists>h'. returns (snd x) (fst x) h' \<and> marks_closed (targets (snd x)) (fst x) h')"
proof -
  define R :: "((heap \<times> call) \<times> (heap \<times> call)) set"
    where "R = inv_image (less_than <*lex*> less_than)
                 (\<lambda>x. (card (unmarked (fst x)), rank (snd x)))"
  have "wf R" unfolding R_def by (intro wf_inv_image wf_lex_prod wf_less_than)
  then show ?thesis
  proof (induct x rule: wf_induct_rule)
  case (less x)
  show ?case
  proof (intro impI)
  assume prems: "wf_heap (fst x)" "wf_call (fst x) (snd x)"
  obtain h c where x: "x = (h, c)" by (cases x)
  from prems x have wh: "wf_heap h" and wc: "wf_call h c" by simp_all
  have IH: "\<exists>h'. returns c' h2 h' \<and> marks_closed (targets c') h2 h'"
    if "wf_heap h2" "wf_call h2 c'"
      "card (unmarked h2) < card (unmarked h)
       \<or> (card (unmarked h2) \<le> card (unmarked h) \<and> rank c' < rank c)" for h2 c'
  proof -
    from that(3) have "card (unmarked h2) < card (unmarked h)
       \<or> (card (unmarked h2) = card (unmarked h) \<and> rank c' < rank c)" by linarith
    then have "((h2, c'), x) \<in> R" by (simp add: R_def x)
    from less.hyps [OF this] that(1,2) show ?thesis by simp
  qed
  from expand_wf [OF wh wc]
  show "\<exists>h'. returns (snd x) (fst x) h' \<and> marks_closed (targets (snd x)) (fst x) h'"
    unfolding x fst_conv snd_conv
  proof (elim disjE exE conjE)
    fix h' assume e: "expand h c = AReturn h'" and m: "marks_closed (targets c) h h'"
    have "run n c h = Done h'" if "1 \<le> n" for n
      using that run_expand_return [OF e] by (cases n) simp_all
    then have "returns c h h'" unfolding returns_def by blast
    with m show "\<exists>h'. returns c h h' \<and> marks_closed (targets c) h h'" by blast
  next
    fix h1 cs assume e: "expand h c = ACalls h1 cs" and s: "step_ok h c h1 cs"
    from s have w1: "\<And>ci. ci \<in> set cs \<Longrightarrow> wf_call h1 ci" and e1: "mark_ext h h1"
      and dec: "card (unmarked h1) < card (unmarked h)
                \<or> (h1 = h \<and> (\<forall>ci\<in>set cs. rank ci < rank c))"
      and cl: "\<And>h'. marks_closed (\<Union>(targets ` set cs)) h1 h' \<Longrightarrow> marks_closed (targets c) h h'"
      by (auto simp add: step_ok_def)
    note wh1 = mark_ext_wf_heap [OF e1 wh]
    have "\<exists>h'. returns_seq cs h1 h' \<and> marks_closed (\<Union>(targets ` set cs)) h1 h'"
    proof (rule returns_seq_total)
      fix ci h2 assume ci: "ci \<in> set cs" and e2: "mark_ext h1 h2"
      have "wf_heap h2" using e2 wh1 by (rule mark_ext_wf_heap)
      moreover have "wf_call h2 ci" using w1 [OF ci] by (simp add: mark_ext_wf_call [OF e2])
      moreover have "card (unmarked h2) \<le> card (unmarked h1)"
        using e2 wf_heap_finite [OF wh1] by (rule mark_ext_card)
      with dec ci have "card (unmarked h2) < card (unmarked h)
          \<or> (card (unmarked h2) \<le> card (unmarked h) \<and> rank ci < rank c)" by auto
      ultimately show "\<exists>h'. returns ci h2 h' \<and> marks_closed (targets ci) h2 h'" by (rule IH)
    qed
    then obtain h' where r: "returns_seq cs h1 h'"
      and m: "marks_closed (\<Union>(targets ` set cs)) h1 h'" by blast
    from r obtain N where n: "\<And>n. N \<le> n \<Longrightarrow> run_seq n cs h1 = Done h'"
      by (auto simp add: returns_seq_def)
    have "run k c h = Done h'" if "Suc N \<le> k" for k
    proof -
      from that obtain k' where "k = Suc k'" "N \<le> k'" by (cases k) auto
      with run_expand_calls [OF e, of k'] n [of k'] show ?thesis by simp
    qed
    then have "returns c h h'" unfolding returns_def by blast
    with cl [OF m] show "\<exists>h'. returns c h h' \<and> marks_closed (targets c) h h'" by blast
  qed
  qed
  qed
qed

lemma run_total:
  assumes "wf_heap h" and "wf_call h c"
  shows "\<exists>h'. returns c h h' \<and> marks_closed (targets c) h h'"
  using run_total_aux [of "(h, c)"] assms by simp

section \<open>Properties of dst_sweep\<close>

lemma sweep_loop_numeral:
  "sweep_loop (numeral k) previous current st = sweep_loop (Suc (pred_numeral k)) previous current st"
  by (simp only: numeral_eq_Suc)

lemmas sweep_eval =
  dst_sweep_def sweep_loop_numeral sweep_branch_def clear_reachable_def block_at_def
  dst_deinit_block_def Let_def DST_MEM_REACHABLE_def DST_MEM_DISABLED_def
  DST_MEM_TYPEBITS_def sizeof_DstGCMemoryHeader_def

text \<open>
  C2 (the code departs from the claim). One buffer block, neither reachable nor pinned: the
  sweep finalizes it and frees it, and then line 297 accesses the \<open>flags\<close> of the block it
  has freed; that access is the last event, and the run ends there in undefined behaviour.
  The claim wants no access to a freed block.
\<close>

theorem dst_sweep_stores_flags_after_free:
  "dst_sweep 2
     \<lparr>blocks = [16 \<mapsto> \<lparr>nxt = 0, flags = 8, body = BBuffer \<lparr>buffer_data = 2000\<rparr>\<rparr>],
      dst_vm_blocks = 16, dst_vm_memory_interval = 0, dst_vm_next_collection = 0,
      dst_vm_fiber = 0, dst_vm_cache = 4096\<rparr>
   = ([EvDeinit 16, EvFree 2000, EvFree 16, EvStoreFlags 16], Fault)"
  by (simp add: sweep_eval)


text \<open>Finalizing a funcenv frees \<open>as.values\<close> if and only if \<open>offset\<close> is zero.\<close>

lemma deinit_funcenv:
  assumes "flags b AND DST_MEM_TYPEBITS = mem_tag DST_MEMORY_FUNCENV" and "body b = BFuncEnv e"
  shows "dst_deinit_block a b
       = Done (if offset e = 0 then [EvDeinit a, EvFree (as_union e)] else [EvDeinit a])"
  using assms by (auto simp add: dst_deinit_block_def Let_def)


section \<open>Properties of the mark phase\<close>

lemma marks_closed_new:
  "marks_closed T h h' \<Longrightarrow> block_at h a = Some b \<Longrightarrow> a \<in> marked h' \<Longrightarrow> a \<notin> marked h
   \<Longrightarrow> refs h (body b) \<subseteq> marked h'"
  by (auto simp add: marks_closed_def)

lemma marks_closed_targets: "marks_closed T h h' \<Longrightarrow> T \<subseteq> marked h'"
  by (simp add: marks_closed_def)

lemmas reader_defs =
  body_at_def block_at_def dst_gc_header_def dst_string_raw_def dst_tuple_raw_def
  dst_struct_raw_def dst_userdata_header_def sizeof_DstGCMemoryHeader_def
  sizeof_uint32_t_def sizeof_DstUserdataHeader_def
  array_at_def table_at_def struct_at_def tuple_at_def funcenv_at_def funcdef_at_def
  function_at_def fiber_at_def

lemma cyclic_example_frames:
  "wf_frames cyclic_example
     \<lparr>fiber_data = 5000,
      fiber_data_mem =
        [SlotFrame \<lparr>func = 96, prevframe = 0\<rparr>, SlotPad,
         SlotValue \<lparr>vtype = DST_TABLE, as_pointer = 32\<rparr>],
      frame = 2, frametop = 3, parent = 64,
      ret = \<lparr>vtype = DST_NIL, as_pointer = 0\<rparr>\<rparr> 2 3"
proof (rule wf_frames_frame [where fr = "\<lparr>func = 96, prevframe = 0\<rparr>"
        and vs = "[\<lparr>vtype = DST_TABLE, as_pointer = 32\<rparr>]"])
  show "(2 :: nat) \<noteq> 0" by simp
  show "read_frame \<lparr>fiber_data = 5000,
      fiber_data_mem =
        [SlotFrame \<lparr>func = 96, prevframe = 0\<rparr>, SlotPad,
         SlotValue \<lparr>vtype = DST_TABLE, as_pointer = 32\<rparr>],
      frame = 2, frametop = 3, parent = 64,
      ret = \<lparr>vtype = DST_NIL, as_pointer = 0\<rparr>\<rparr> 2 = Some \<lparr>func = 96, prevframe = 0\<rparr>"
    by (simp add: read_frame_def DST_FRAME_SIZE_def)
  show "prevframe \<lparr>func = 96, prevframe = 0\<rparr> < 2" by simp
  show "func \<lparr>func = 96, prevframe = 0\<rparr> \<noteq> 0 \<longrightarrow>
      function_at cyclic_example (func \<lparr>func = 96, prevframe = 0\<rparr>) \<noteq> None \<and>
      (case function_at cyclic_example (func \<lparr>func = 96, prevframe = 0\<rparr>) of
         None \<Rightarrow> False
       | Some g \<Rightarrow> funcdef_at cyclic_example (fn_def g) \<noteq> None)"
    by (simp add: cyclic_example_def reader_defs)
  show "u32_sub 3 2 < 2 ^ 32" by (simp add: u32_sub_def)
  show "read_values (drop 2 (fiber_data_mem \<lparr>fiber_data = 5000,
      fiber_data_mem =
        [SlotFrame \<lparr>func = 96, prevframe = 0\<rparr>, SlotPad,
         SlotValue \<lparr>vtype = DST_TABLE, as_pointer = 32\<rparr>],
      frame = 2, frametop = 3, parent = 64,
      ret = \<lparr>vtype = DST_NIL, as_pointer = 0\<rparr>\<rparr>)) (u32_sub 3 2)
      = Some [\<lparr>vtype = DST_TABLE, as_pointer = 32\<rparr>]"
    by (simp add: u32_sub_def)
  show "\<forall>v\<in>set [\<lparr>vtype = DST_TABLE, as_pointer = 32\<rparr>]. wf_value cyclic_example v"
    by (simp add: wf_value_def cyclic_example_def reader_defs)
  show "wf_frames cyclic_example \<lparr>fiber_data = 5000,
      fiber_data_mem =
        [SlotFrame \<lparr>func = 96, prevframe = 0\<rparr>, SlotPad,
         SlotValue \<lparr>vtype = DST_TABLE, as_pointer = 32\<rparr>],
      frame = 2, frametop = 3, parent = 64,
      ret = \<lparr>vtype = DST_NIL, as_pointer = 0\<rparr>\<rparr> (prevframe \<lparr>func = 96, prevframe = 0\<rparr>)
      (u32_sub 2 DST_FRAME_SIZE)"
    by (simp add: wf_frames_bottom)
qed

lemma cyclic_example_wf: "wf_heap cyclic_example"
  unfolding wf_heap_def
proof (intro conjI allI impI)
  show "finite (dom cyclic_example)" by (simp add: cyclic_example_def)
next
  fix a b
  assume "block_at cyclic_example a = Some b"
  then consider "a = 16" | "a = 48" | "a = 80" | "a = 112" | "a = 144" | "a = 176" | "a = 208"
    by (auto simp add: cyclic_example_def block_at_def split: if_splits)
  then show "\<forall>c\<in>set (children cyclic_example (body b)). wf_call cyclic_example c"
  proof cases
    case 1
    with \<open>block_at cyclic_example a = Some b\<close> show ?thesis
      by (auto simp add: cyclic_example_def block_at_def children_def wf_call_def
          wf_value_def reader_defs)
  next
    case 2
    with \<open>block_at cyclic_example a = Some b\<close>
    have b: "body b = BFiber \<lparr>fiber_data = 5000,
      fiber_data_mem =
        [SlotFrame \<lparr>func = 96, prevframe = 0\<rparr>, SlotPad,
         SlotValue \<lparr>vtype = DST_TABLE, as_pointer = 32\<rparr>],
      frame = 2, frametop = 3, parent = 64,
      ret = \<lparr>vtype = DST_NIL, as_pointer = 0\<rparr>\<rparr>"
      by (auto simp add: cyclic_example_def block_at_def)
    show ?thesis
      unfolding b using cyclic_example_frames
      by (simp add: children_def wf_call_def wf_value_def)
        (simp add: cyclic_example_def reader_defs)
  next
    case 3
    with \<open>block_at cyclic_example a = Some b\<close> show ?thesis
      by (auto simp add: cyclic_example_def block_at_def children_def wf_call_def
          wf_value_def reader_defs)
  next
    case 4
    with \<open>block_at cyclic_example a = Some b\<close> show ?thesis
      by (auto simp add: cyclic_example_def block_at_def children_def wf_call_def
          wf_value_def reader_defs)
  next
    case 5
    with \<open>block_at cyclic_example a = Some b\<close> show ?thesis
      by (auto simp add: cyclic_example_def block_at_def children_def wf_call_def
          wf_value_def reader_defs)
  next
    case 6
    with \<open>block_at cyclic_example a = Some b\<close> show ?thesis
      by (auto simp add: cyclic_example_def block_at_def children_def wf_call_def
          wf_value_def reader_defs)
  next
    case 7
    with \<open>block_at cyclic_example a = Some b\<close> show ?thesis
      by (auto simp add: cyclic_example_def block_at_def children_def wf_call_def
          wf_value_def reader_defs)
  qed
qed

text \<open>
  C10. Marking a function that is not yet marked and whose \<open>envs\<close> is null: the function is
  marked; without a funcdef behind \<open>def\<close> (a null \<open>def\<close> for one) the routine faults, at the
  read of \<open>def->environments_length\<close>; with one, the loop over \<open>envs\<close> is skipped, whatever
  the memory behind \<open>envs\<close> holds, and the routine goes on as \<open>dst_mark_funcdef\<close> of \<open>def\<close> on
  the heap with the function marked; in a well-formed heap it returns, and leaves the function
  and its funcdef marked.
\<close>

theorem dst_mark_function_null_envs:
  assumes g: "dst_gc_reachable h fn = Some False"
    and f: "function_at h fn = Some f"
    and e: "envs f = 0"
  shows "\<exists>h1. dst_gc_mark h fn = Some h1
      \<and> (\<forall>n. funcdef_at h (fn_def f) = None \<longrightarrow> dst_mark_function (Suc n) fn h = Fault)
      \<and> (\<forall>n. funcdef_at h (fn_def f) \<noteq> None \<longrightarrow>
            dst_mark_function (Suc n) fn h = dst_mark_funcdef n (fn_def f) h1)
      \<and> (wf_heap h \<longrightarrow>
            (\<exists>h'. (\<exists>N. \<forall>n\<ge>N. dst_mark_function n fn h = Done h')
               \<and> dst_gc_header fn \<in> marked h' \<and> dst_gc_header (fn_def f) \<in> marked h'))"
proof -
  from g obtain b where b: "block_at h (dst_gc_header fn) = Some b"
    "flags b AND DST_MEM_REACHABLE = 0"
    by (auto simp add: dst_gc_reachable_def split: option.splits)
  then obtain h1 where h1: "dst_gc_mark h fn = Some h1" by (simp add: dst_gc_mark_def)
  note me = mark_ext_gc_mark [OF h1]
  from f have f1: "function_at h1 fn = Some f" by (simp add: mark_ext_readers [OF me])
  have p1: "dst_mark_function (Suc n) fn h = Fault" if "funcdef_at h (fn_def f) = None" for n
    using that g h1 f1
    by (simp add: dst_mark_function_def run.simps(2) mark_ext_readers [OF me])
  have p2: "dst_mark_function (Suc n) fn h = dst_mark_funcdef n (fn_def f) h1"
    if "funcdef_at h (fn_def f) \<noteq> None" for n
    using that g h1 f1 e
    by (auto simp add: dst_mark_function_def dst_mark_funcdef_def run.simps(2)
        mark_ext_readers [OF me] split: result.splits)
  have p3: "\<exists>h'. (\<exists>N. \<forall>n\<ge>N. dst_mark_function n fn h = Done h')
               \<and> dst_gc_header fn \<in> marked h' \<and> dst_gc_header (fn_def f) \<in> marked h'"
    if w: "wf_heap h"
  proof -
    from wf_function_def [OF w f] f have wc: "wf_call h (Mark_function fn)"
      by (simp add: wf_call_def)
    from run_total [OF w wc] obtain h' where r: "returns (Mark_function fn) h h'"
      and m: "marks_closed (targets (Mark_function fn)) h h'" by blast
    from marks_closed_targets [OF m] have t: "dst_gc_header fn \<in> marked h'"
      by (simp add: targets_def)
    from b have "dst_gc_header fn \<notin> marked h" by (auto simp add: marked_def)
    from marks_closed_new [OF m b(1) t this] body_at_SomeD [OF reader_SomeD(7) [OF f]] b(1)
    have "dst_gc_header (fn_def f) \<in> marked h'" by (auto simp add: refs_def)
    with r t show ?thesis by (auto simp add: returns_def dst_mark_function_def)
  qed
  from h1 p1 p2 p3 show ?thesis by blast
qed

theorem dst_mark_function_null_envs_witness:
  "dst_gc_reachable cyclic_example 96 = Some False
   \<and> function_at cyclic_example 96 = Some \<lparr>fn_def = 128, envs = 0, envs_mem = []\<rparr>
   \<and> wf_heap cyclic_example
   \<and> (\<exists>h'. (\<exists>N. \<forall>n\<ge>N. dst_mark_function n 96 cyclic_example = Done h')
          \<and> 80 \<in> marked h' \<and> 112 \<in> marked h')
   \<and> dst_gc_reachable dangling_example 96 = Some False
   \<and> function_at dangling_example 96 = Some \<lparr>fn_def = 0, envs = 0, envs_mem = []\<rparr>
   \<and> dst_mark_function 1 96 dangling_example = Fault"
proof -
  have g: "dst_gc_reachable cyclic_example 96 = Some False"
    by (simp add: cyclic_example_def dst_gc_reachable_def reader_defs DST_MEM_REACHABLE_def)
  have f: "function_at cyclic_example 96 = Some \<lparr>fn_def = 128, envs = 0, envs_mem = []\<rparr>"
    by (simp add: cyclic_example_def reader_defs)
  from dst_mark_function_null_envs [OF g f] cyclic_example_wf
  have a: "\<exists>h'. (\<exists>N. \<forall>n\<ge>N. dst_mark_function n 96 cyclic_example = Done h')
          \<and> 80 \<in> marked h' \<and> 112 \<in> marked h'"
    by (auto simp add: dst_gc_header_def sizeof_DstGCMemoryHeader_def)
  have g2: "dst_gc_reachable dangling_example 96 = Some False"
    by (simp add: dangling_example_def dst_gc_reachable_def reader_defs DST_MEM_REACHABLE_def)
  have f2: "function_at dangling_example 96 = Some \<lparr>fn_def = 0, envs = 0, envs_mem = []\<rparr>"
    by (simp add: dangling_example_def reader_defs)
  have d: "funcdef_at dangling_example 0 = None"
    by (simp add: dangling_example_def reader_defs)
  from dst_mark_function_null_envs [OF g2 f2] d
  have b: "dst_mark_function 1 96 dangling_example = Fault" by auto
  from g f cyclic_example_wf a g2 f2 b show ?thesis by blast
qed

text \<open>
  C7. Marking a funcdef that is not yet marked: the funcdef is marked. If \<open>constants\<close> is
  null the routine returns there, whatever \<open>constants_length\<close> and the memory behind
  \<open>constants\<close> are. If \<open>constants\<close> is non-null, in a well-formed heap, the routine returns and
  then, of the constants \<open>constants[0..constants_length]\<close>, every boolean-tagged one has the
  block in front of its pointer payload marked, and every other one has the block of its
  value marked (if it is of a heap kind); every block the call has marked, a nested funcdef
  for one, has all its references marked in turn.
\<close>

theorem dst_mark_funcdef_constants:
  assumes g: "dst_gc_reachable h def = Some False"
    and d: "funcdef_at h def = Some d"
  shows "\<exists>h1. dst_gc_mark h def = Some h1
      \<and> (constants d = 0 \<longrightarrow> (\<forall>n. dst_mark_funcdef (Suc n) def h = Done h1))
      \<and> (constants d \<noteq> 0 \<longrightarrow> wf_heap h \<longrightarrow>
           (\<exists>h'. (\<exists>N. \<forall>n\<ge>N. dst_mark_funcdef n def h = Done h')
              \<and> (\<forall>v\<in>set (take (constants_length d) (constants_mem d)).
                   if vtype v = DST_BOOLEAN
                   then dst_gc_header (as_pointer v) \<in> marked h'
                   else (\<forall>a. value_block v = Some a \<longrightarrow> a \<in> marked h'))
              \<and> marks_closed {dst_gc_header def} h h'))"
proof -
  from g obtain b where b: "block_at h (dst_gc_header def) = Some b"
    "flags b AND DST_MEM_REACHABLE = 0"
    by (auto simp add: dst_gc_reachable_def split: option.splits)
  then obtain h1 where h1: "dst_gc_mark h def = Some h1" by (simp add: dst_gc_mark_def)
  note me = mark_ext_gc_mark [OF h1]
  from d have d1: "funcdef_at h1 def = Some d" by (simp add: mark_ext_readers [OF me])
  have p1: "dst_mark_funcdef (Suc n) def h = Done h1" if "constants d = 0" for n
    using that g h1 d1 by (simp add: dst_mark_funcdef_def run.simps(2))
  have p2: "\<exists>h'. (\<exists>N. \<forall>n\<ge>N. dst_mark_funcdef n def h = Done h')
              \<and> (\<forall>v\<in>set (take (constants_length d) (constants_mem d)).
                   if vtype v = DST_BOOLEAN
                   then dst_gc_header (as_pointer v) \<in> marked h'
                   else (\<forall>a. value_block v = Some a \<longrightarrow> a \<in> marked h'))
              \<and> marks_closed {dst_gc_header def} h h'"
    if c: "constants d \<noteq> 0" and w: "wf_heap h"
  proof -
    from d have wc: "wf_call h (Mark_funcdef def)" by (simp add: wf_call_def)
    from run_total [OF w wc] obtain h' where r: "returns (Mark_funcdef def) h h'"
      and m: "marks_closed (targets (Mark_funcdef def)) h h'" by blast
    from m have m': "marks_closed {dst_gc_header def} h h'" by (simp add: targets_def)
    from marks_closed_targets [OF m'] have t: "dst_gc_header def \<in> marked h'" by simp
    from b have nm: "dst_gc_header def \<notin> marked h" by (auto simp add: marked_def)
    from body_at_SomeD [OF reader_SomeD(6) [OF d]] b(1) have bb: "body b = BFuncDef d" by auto
    from marks_closed_new [OF m' b(1) t nm] c
    have cb: "constant_blocks (take (constants_length d) (constants_mem d)) \<subseteq> marked h'"
      by (simp add: bb refs_def)
    have "\<forall>v\<in>set (take (constants_length d) (constants_mem d)).
                   if vtype v = DST_BOOLEAN
                   then dst_gc_header (as_pointer v) \<in> marked h'
                   else (\<forall>a. value_block v = Some a \<longrightarrow> a \<in> marked h')"
    proof
      fix v
      assume v: "v \<in> set (take (constants_length d) (constants_mem d))"
      have "\<And>a. constant_block v = Some a \<Longrightarrow> a \<in> marked h'"
        using cb v unfolding constant_blocks_def by blast
      then show "if vtype v = DST_BOOLEAN
                   then dst_gc_header (as_pointer v) \<in> marked h'
                   else (\<forall>a. value_block v = Some a \<longrightarrow> a \<in> marked h')"
        by (simp add: constant_block_def)
    qed
    moreover from r have "\<exists>N. \<forall>n\<ge>N. dst_mark_funcdef n def h = Done h'"
      by (simp add: returns_def dst_mark_funcdef_def)
    ultimately show ?thesis using m' by blast
  qed
  from h1 p1 p2 show ?thesis by blast
qed

theorem dst_mark_funcdef_constants_witness:
  "dst_gc_reachable cyclic_example 128 = Some False
   \<and> funcdef_at cyclic_example 128
       = Some \<lparr>environments = 0, environments_length = 0, constants = 6000,
                constants_mem = [\<lparr>vtype = DST_BOOLEAN, as_pointer = 160\<rparr>,
                                 \<lparr>vtype = DST_STRING, as_pointer = 200\<rparr>],
                constants_length = 2, bytecode = 0\<rparr>
   \<and> wf_heap cyclic_example
   \<and> (\<exists>h'. (\<exists>N. \<forall>n\<ge>N. dst_mark_funcdef n 128 cyclic_example = Done h')
          \<and> 144 \<in> marked h' \<and> 176 \<in> marked h')
   \<and> dst_gc_reachable cyclic_example 224 = Some False
   \<and> funcdef_at cyclic_example 224
       = Some \<lparr>environments = 0, environments_length = 0, constants = 0,
                constants_mem = [], constants_length = 3, bytecode = 0\<rparr>
   \<and> (\<exists>h1. dst_gc_mark cyclic_example 224 = Some h1
          \<and> dst_mark_funcdef 1 224 cyclic_example = Done h1)"
proof -
  have g: "dst_gc_reachable cyclic_example 128 = Some False"
    by (simp add: cyclic_example_def dst_gc_reachable_def reader_defs DST_MEM_REACHABLE_def)
  have f: "funcdef_at cyclic_example 128
       = Some \<lparr>environments = 0, environments_length = 0, constants = 6000,
                constants_mem = [\<lparr>vtype = DST_BOOLEAN, as_pointer = 160\<rparr>,
                                 \<lparr>vtype = DST_STRING, as_pointer = 200\<rparr>],
                constants_length = 2, bytecode = 0\<rparr>"
    by (simp add: cyclic_example_def reader_defs)
  from dst_mark_funcdef_constants [OF g f] cyclic_example_wf
  have a: "\<exists>h'. (\<exists>N. \<forall>n\<ge>N. dst_mark_funcdef n 128 cyclic_example = Done h')
          \<and> 144 \<in> marked h' \<and> 176 \<in> marked h'"
    by (auto simp add: value_block_def dst_gc_header_def dst_string_raw_def
        sizeof_DstGCMemoryHeader_def sizeof_uint32_t_def)
  have g2: "dst_gc_reachable cyclic_example 224 = Some False"
    by (simp add: cyclic_example_def dst_gc_reachable_def reader_defs DST_MEM_REACHABLE_def)
  have f2: "funcdef_at cyclic_example 224
       = Some \<lparr>environments = 0, environments_length = 0, constants = 0,
                constants_mem = [], constants_length = 3, bytecode = 0\<rparr>"
    by (simp add: cyclic_example_def reader_defs)
  from dst_mark_funcdef_constants [OF g2 f2]
  have b: "\<exists>h1. dst_gc_mark cyclic_example 224 = Some h1
          \<and> dst_mark_funcdef 1 224 cyclic_example = Done h1"
    by auto
  from g f cyclic_example_wf a g2 f2 b show ?thesis by blast
qed

text \<open>
  C4. In a well-formed heap, with cycles and sharing or without, every mark routine called
  with valid arguments returns: there is a heap that it returns for every fuel from some
  bound on, and that heap is the one before with more reachable bits set. A kind-specific
  routine called on a block whose reachable bit is set returns at once, the heap unchanged:
  this is what ends the recursion on a cycle. (\<open>run n c\<close> is the routine and the arguments
  that \<open>c\<close> names, \<open>dst_mark n x = run n (Mark x)\<close> and so on.)
\<close>

theorem mark_terminates:
  assumes "wf_heap h" and "wf_call h c"
  shows "(\<exists>h'. (\<exists>N. \<forall>n\<ge>N. run n c h = Done h') \<and> mark_ext h h')
       \<and> (\<forall>m n. call_block c = Some m \<longrightarrow> dst_gc_reachable h m = Some True
              \<longrightarrow> run (Suc n) c h = Done h)"
proof
  from run_total [OF assms] obtain h' where r: "returns c h h'"
    and m: "marks_closed (targets c) h h'" by blast
  from r m show "\<exists>h'. (\<exists>N. \<forall>n\<ge>N. run n c h = Done h') \<and> mark_ext h h'"
    by (auto simp add: returns_def marks_closed_def)
next
  show "\<forall>m n. call_block c = Some m \<longrightarrow> dst_gc_reachable h m = Some True
              \<longrightarrow> run (Suc n) c h = Done h"
    by (cases c) (simp_all add: call_block_def run.simps(2))
qed

theorem mark_terminates_witness:
  "wf_heap cyclic_example \<and> wf_call cyclic_example (Mark_fiber 64)
   \<and> (\<exists>h'. (\<exists>N. \<forall>n\<ge>N. dst_mark_fiber n 64 cyclic_example = Done h')
          \<and> mark_ext cyclic_example h')"
proof -
  have c: "wf_call cyclic_example (Mark_fiber 64)"
    by (simp add: wf_call_def cyclic_example_def reader_defs)
  from mark_terminates [OF cyclic_example_wf c] cyclic_example_wf c show ?thesis
    by (simp add: dst_mark_fiber_def)
qed

section \<open>The sweep loop\<close>










text \<open>The store after the reachable bits of \<open>as\<close> are cleared.\<close>

lemma clear_flags_idem:
  "(b :: block)\<lparr>flags := flags b AND NOT DST_MEM_REACHABLE\<rparr>
      \<lparr>flags := flags (b\<lparr>flags := flags b AND NOT DST_MEM_REACHABLE\<rparr>) AND NOT DST_MEM_REACHABLE\<rparr>
   = b\<lparr>flags := flags b AND NOT DST_MEM_REACHABLE\<rparr>"
  by (simp add: and.assoc)









section \<open>Properties of dst_collect\<close>





















end
